theory Spec2Isabelle
  imports Main "HOL-Library.AList" "HOL-Library.Multiset" "HOL-Library.Sublist"
    "HOL-Library.List_Lexorder" "HOL-Library.Char_ord"
begin

section \<open>Data model\<close>

text \<open>
  The script \<^verbatim>\<open>tools/expected_upstream/ojluni_refresh_files.py\<close> drives a git repository
  through GitPython. The repository is embedded as an explicit state record and every
  function of the script as a function on that state; an exception is the \<open>Inl\<close> branch of
  the returned sum, and the state returned with it is the state at the moment of the raise.

  A path is a string and a blob is a string of bytes. A git tree is embedded flat, as the
  finite map from the paths of its files to their bytes: the manifest names files, and a
  path that names a directory is outside this model.
\<close>

type_synonym path = string
type_synonym bytes = string
type_synonym tree = "path \<rightharpoonup> bytes"

text \<open>
  \<^verbatim>\<open>ExpectedUpstreamEntry\<close> is declared in \<^verbatim>\<open>common_util\<close>; the script reads the three
  attributes below and never writes them.
\<close>

record ExpectedUpstreamEntry =
  git_ref :: string
  src_path :: path
  dst_path :: path

text \<open>
  Git addresses a commit by the hash of its content (tree, parents, message), so that a
  commit is identified here with that content.
\<close>

datatype commit = Commit (c_tree: tree) (c_parents: "commit list") (c_message: string)

datatype error =
    IndexError
  | BadName string
  | KeyError path
  | ValueError
  | AttributeError
  | FileNotFoundError path

text \<open>The lines the script prints, one constructor for each \<^verbatim>\<open>print\<close> of the source.\<close>

datatype printed =
    BranchWarning string string
  | ReadingExpectedUpstream
  | NoNeedToUpdate
  | WillBeUpdated
  | DstPathLine path
  | NewMergeCommit commit string
  | ErrorReadingEntry ExpectedUpstreamEntry

text \<open>
  The state: \<open>refs\<close> resolves a revision name (a branch, a tag, a hexadecimal object name) to
  its commit; \<open>active_branch\<close> is the branch \<^verbatim>\<open>HEAD\<close> points to, and its entry in \<open>refs\<close> is the
  branch tip (absent on an unborn branch); \<open>tracking_branch\<close> is the name of the configured
  upstream of the active branch, \<open>None\<close> when none is configured; \<open>commits\<close> lists the
  commit objects the script has written, in the order of their creation; \<open>working_tree\<close> is
  the checked-out files, with the process running in the repository's root so that a
  relative path names the same file for \<^verbatim>\<open>open\<close> and for the index; \<open>index\<close> is the staging
  area \<^verbatim>\<open>repo.index\<close>; \<open>stdout\<close> and \<open>stderr\<close> are what has been printed.
\<close>

record repo_state =
  refs :: "string \<rightharpoonup> commit"
  active_branch :: string
  tracking_branch :: "string option"
  commits :: "commit list"
  working_tree :: tree
  index :: tree
  stdout :: "printed list"
  stderr :: "printed list"

section \<open>Repository operations used by the script\<close>

text \<open>\<^verbatim>\<open>repo.commit(rev)\<close>: the commit a revision resolves to; raises on an unknown name.\<close>

definition repo_commit :: "repo_state \<Rightarrow> string \<Rightarrow> error + commit" where
  "repo_commit repo name = (case refs repo name of None \<Rightarrow> Inl (BadName name) | Some c \<Rightarrow> Inr c)"

text \<open>
  \<^verbatim>\<open>repo.head.commit\<close> and \<^verbatim>\<open>repo.active_branch.commit\<close>: the tip of the active branch;
  raises \<^verbatim>\<open>ValueError\<close> on a branch without a commit.
\<close>

definition head_commit :: "repo_state \<Rightarrow> error + commit" where
  "head_commit repo =
     (case refs repo (active_branch repo) of None \<Rightarrow> Inl ValueError | Some c \<Rightarrow> Inr c)"

text \<open>\<^verbatim>\<open>tree.join(path)\<close> and \<^verbatim>\<open>tree[path]\<close>, followed by \<^verbatim>\<open>data_stream.read()\<close>.\<close>

definition tree_join :: "tree \<Rightarrow> path \<Rightarrow> error + bytes" where
  "tree_join t p = (case t p of None \<Rightarrow> Inl (KeyError p) | Some b \<Rightarrow> Inr b)"

text \<open>
  Modelled from the spec: \<^verbatim>\<open>has_file_in_tree\<close> of \<^verbatim>\<open>common_util\<close> is not among the sources;
  the spec's filter asks whether the destination path exists in the tip's tree.
\<close>

definition has_file_in_tree :: "path \<Rightarrow> tree \<Rightarrow> bool" where
  "has_file_in_tree p t = (t p \<noteq> None)"

text \<open>\<^verbatim>\<open>IndexFile.from_tree(repo, commit)\<close>: an index holding the files of the commit's tree.\<close>

definition index_from_tree :: "commit \<Rightarrow> tree" where
  "index_from_tree c = c_tree c"

text \<open>
  \<^verbatim>\<open>index.add(path)\<close>: stages the file found at the path in the working tree.
\<close>

definition index_add :: "tree \<Rightarrow> tree \<Rightarrow> path \<Rightarrow> error + tree" where
  "index_add idx wt p =
     (case wt p of None \<Rightarrow> Inl (FileNotFoundError p) | Some b \<Rightarrow> Inr (idx(p \<mapsto> b)))"

text \<open>
  \<^verbatim>\<open>index.commit(message, parent_commits, head)\<close>: writes the commit of the index's tree
  and, when \<open>head\<close> is set, moves the active branch to it.
\<close>

definition index_commit ::
  "tree \<Rightarrow> string \<Rightarrow> commit list \<Rightarrow> bool \<Rightarrow> repo_state \<Rightarrow> commit \<times> repo_state" where
  "index_commit idx msg parent_commits hd_flag repo =
     (let c = Commit idx parent_commits msg;
          repo1 = repo\<lparr>commits := commits repo @ [c]\<rparr>
      in (c, if hd_flag then repo1\<lparr>refs := (refs repo1)(active_branch repo1 \<mapsto> c)\<rparr>
             else repo1))"

text \<open>
  \<^verbatim>\<open>repo.index.reset(paths=...)\<close>: each path of the staging area is set to its state in
  the given tree, and removed when the tree does not have it.
\<close>

fun index_reset :: "tree \<Rightarrow> path list \<Rightarrow> tree \<Rightarrow> tree" where
  "index_reset t [] idx = idx"
| "index_reset t (p # ps) idx = index_reset t ps (idx(p := t p))"

section \<open>The staleness filter\<close>

text \<open>
  The body of the \<^verbatim>\<open>try\<close> of \<^verbatim>\<open>validate_and_remove_updated_entries\<close> for one entry:
  \<open>Inr True\<close> when the entry is appended to the result.
\<close>

definition entry_outdated :: "repo_state \<Rightarrow> tree \<Rightarrow> ExpectedUpstreamEntry \<Rightarrow> error + bool" where
  "entry_outdated repo head_tree e =
     (case repo_commit repo (git_ref e) of
        Inl err \<Rightarrow> Inl err
      | Inr c \<Rightarrow>
          (case tree_join (c_tree c) (src_path e) of
             Inl err \<Rightarrow> Inl err
           | Inr source_blob \<Rightarrow>
               if \<not> has_file_in_tree (dst_path e) head_tree then Inr True
               else (case tree_join head_tree (dst_path e) of
                       Inl err \<Rightarrow> Inl err
                     | Inr dst_blob \<Rightarrow> Inr (source_blob \<noteq> dst_blob))))"

fun validate_loop ::
  "tree \<Rightarrow> ExpectedUpstreamEntry list \<Rightarrow> ExpectedUpstreamEntry list \<Rightarrow> repo_state
     \<Rightarrow> (error + ExpectedUpstreamEntry list) \<times> repo_state" where
  "validate_loop head_tree [] result repo = (Inr result, repo)"
| "validate_loop head_tree (e # es) result repo =
     (case entry_outdated repo head_tree e of
        Inl err \<Rightarrow> (Inl err, repo\<lparr>stderr := stderr repo @ [ErrorReadingEntry e]\<rparr>)
      | Inr outdated \<Rightarrow>
          validate_loop head_tree es (if outdated then result @ [e] else result) repo)"

definition validate_and_remove_updated_entries ::
  "ExpectedUpstreamEntry list \<Rightarrow> repo_state
     \<Rightarrow> (error + ExpectedUpstreamEntry list) \<times> repo_state" where
  "validate_and_remove_updated_entries entries repo =
     (case head_commit repo of
        Inl err \<Rightarrow> (Inl err, repo)
      | Inr c \<Rightarrow> validate_loop (c_tree c) entries [] repo)"

section \<open>The ref partitioner\<close>

text \<open>
  \<^verbatim>\<open>result_map\<close> is a Python dictionary, which keeps its keys in the order of their first
  insertion: an association list, where \<open>AList.update\<close> replaces the value of a key in
  place and appends a key that is new.
\<close>

definition partition_step ::
  "ExpectedUpstreamEntry \<Rightarrow> (string \<times> ExpectedUpstreamEntry list) list
     \<Rightarrow> (string \<times> ExpectedUpstreamEntry list) list" where
  "partition_step e result_map =
     (let m = (if map_of result_map (git_ref e) = None
               then AList.update (git_ref e) [] result_map else result_map)
      in AList.map_entry (git_ref e) (\<lambda>l. l @ [e]) m)"

fun partition_loop ::
  "ExpectedUpstreamEntry list \<Rightarrow> (string \<times> ExpectedUpstreamEntry list) list
     \<Rightarrow> (string \<times> ExpectedUpstreamEntry list) list" where
  "partition_loop [] result_map = result_map"
| "partition_loop (e # es) result_map = partition_loop es (partition_step e result_map)"

definition partition_entries_by_ref ::
  "ExpectedUpstreamEntry list \<Rightarrow> ExpectedUpstreamEntry list list" where
  "partition_entries_by_ref entries = map snd (partition_loop entries [])"

section \<open>Commit messages\<close>

definition EMPTY_COMMIT_SHA :: string where
  "EMPTY_COMMIT_SHA = ''d85bc16ba1cdcc20bec6fcbfe46dc90f9fcd2f78''"

text \<open>
  \<^verbatim>\<open>THIS_TOOL_PATH\<close> is the script's path relative to \<^verbatim>\<open>LIBCORE_DIR\<close>, a constant of
  \<^verbatim>\<open>common_util\<close>; it is the parameter \<open>tool\<close> of the two templates.
\<close>

definition MSG_FIRST_COMMIT :: "string \<Rightarrow> string \<Rightarrow> string \<Rightarrow> string \<Rightarrow> string" where
  "MSG_FIRST_COMMIT tool summary ref files =
     ''Import '' @ summary @ '' from '' @ ref @ ''\<newline>''
     @ ''\<newline>''
     @ ''List of files:\<newline>''
     @ ''  '' @ files @ ''\<newline>''
     @ ''\<newline>''
     @ ''Generated by '' @ tool
     @ ''\<newline>''
     @ ''Test: N/A''"

definition MSG_SECOND_COMMIT :: "string \<Rightarrow> string \<Rightarrow> string \<Rightarrow> string \<Rightarrow> string" where
  "MSG_SECOND_COMMIT tool summary ref files =
     ''Merge '' @ summary @ '' from '' @ ref @ '' into the ''
     @ '' expected_upstream branch\<newline>''
     @ ''\<newline>''
     @ ''List of files:\<newline>''
     @ ''  '' @ files @ ''\<newline>''
     @ ''\<newline>''
     @ ''Generated by '' @ tool
     @ ''\<newline>''
     @ ''Test: N/A''"

text \<open>\<^verbatim>\<open>sep.join(xs)\<close>.\<close>

fun str_join :: "string \<Rightarrow> string list \<Rightarrow> string" where
  "str_join sep [] = []"
| "str_join sep [x] = x"
| "str_join sep (x # y # ys) = x @ sep @ str_join sep (y # ys)"

text \<open>
  \<^verbatim>\<open>Path(p).stem\<close> of pathlib: the final component of the path without its last suffix.
  The components are the pieces between slashes, empty pieces and \<^verbatim>\<open>.\<close> dropped; the
  suffix starts at the last dot of the name, when that dot is neither its first nor its
  last character.
\<close>

fun split_on :: "char \<Rightarrow> string \<Rightarrow> string list" where
  "split_on c [] = [[]]"
| "split_on c (x # xs) =
     (if x = c then [] # split_on c xs
      else (case split_on c xs of [] \<Rightarrow> [[x]] | w # ws \<Rightarrow> (x # w) # ws))"

definition path_name :: "path \<Rightarrow> string" where
  "path_name p =
     (let parts = filter (\<lambda>s. s \<noteq> [] \<and> s \<noteq> ''.'') (split_on CHR ''/'' p)
      in if parts = [] then [] else last parts)"

fun rfind :: "char \<Rightarrow> string \<Rightarrow> nat option" where
  "rfind c [] = None"
| "rfind c (x # xs) =
     (case rfind c xs of
        Some i \<Rightarrow> Some (Suc i)
      | None \<Rightarrow> if x = c then Some 0 else None)"

definition path_stem :: "path \<Rightarrow> string" where
  "path_stem p =
     (let name = path_name p
      in case rfind CHR ''.'' name of
           None \<Rightarrow> name
         | Some i \<Rightarrow> if 0 < i \<and> i < length name - 1 then take i name else name)"

definition summary_msg :: "ExpectedUpstreamEntry list \<Rightarrow> string" where
  "summary_msg entry_set =
     (if length entry_set = 1 then path_stem (dst_path (hd entry_set)) else ''files'')"

definition str_dst_paths :: "ExpectedUpstreamEntry list \<Rightarrow> string" where
  "str_dst_paths entry_set = str_join ''\<newline>  '' (map dst_path entry_set)"

section \<open>The commit builder\<close>

text \<open>
  \<^verbatim>\<open>IndexFile.from_tree(repo, repo.commit(EMPTY_COMMIT_SHA))\<close>: the index the import commit
  is built in.
\<close>

definition fresh_index :: "repo_state \<Rightarrow> error + tree" where
  "fresh_index repo =
     (case repo_commit repo EMPTY_COMMIT_SHA of
        Inl err \<Rightarrow> Inl err
      | Inr empty_commit \<Rightarrow> Inr (index_from_tree empty_commit))"

text \<open>
  The loop over the entry set: the upstream blob is written to the destination path of
  the working tree and the path is staged into the first index. A raise leaves the files
  written so far.
\<close>

fun import_loop ::
  "tree \<Rightarrow> ExpectedUpstreamEntry list \<Rightarrow> tree \<Rightarrow> repo_state \<Rightarrow> (error + tree) \<times> repo_state" where
  "import_loop upstream_tree [] first_index repo = (Inr first_index, repo)"
| "import_loop upstream_tree (entry # es) first_index repo =
     (case tree_join upstream_tree (src_path entry) of
        Inl err \<Rightarrow> (Inl err, repo)
      | Inr src_blob \<Rightarrow>
          (let repo1 = repo\<lparr>working_tree := (working_tree repo)(dst_path entry \<mapsto> src_blob)\<rparr>
           in case index_add first_index (working_tree repo1) (dst_path entry) of
                Inl err \<Rightarrow> (Inl err, repo1)
              | Inr idx \<Rightarrow> import_loop upstream_tree es idx repo1))"

definition merge_files_and_create_commit ::
  "string \<Rightarrow> ExpectedUpstreamEntry list \<Rightarrow> repo_state \<Rightarrow> (error + unit) \<times> repo_state" where
  "merge_files_and_create_commit tool entry_set repo =
     (case entry_set of
        [] \<Rightarrow> (Inl IndexError, repo)
      | e0 # _ \<Rightarrow>
     (case repo_commit repo (git_ref e0) of
        Inl err \<Rightarrow> (Inl err, repo)
      | Inr upstream_commit \<Rightarrow>
     (case fresh_index repo of
        Inl err \<Rightarrow> (Inl err, repo)
      | Inr first_index0 \<Rightarrow>
     (case import_loop (c_tree upstream_commit) entry_set first_index0 repo of
        (Inl err, repo1) \<Rightarrow> (Inl err, repo1)
      | (Inr first_index, repo1) \<Rightarrow>
     (let msg = MSG_FIRST_COMMIT tool (summary_msg entry_set) (git_ref e0)
                  (str_dst_paths entry_set);
          (first_commit, repo2) = index_commit first_index msg [upstream_commit] False repo1
      in case head_commit repo2 of
           Inl err \<Rightarrow> (Inl err, repo2)
         | Inr prev_head \<Rightarrow>
     (let second_index = index_from_tree prev_head ++ c_tree first_commit;
          msg2 = MSG_SECOND_COMMIT tool (summary_msg entry_set) (git_ref e0)
                   (str_dst_paths entry_set);
          (second_commit, repo3) =
             index_commit second_index msg2 [prev_head, first_commit] True repo2;
          repo4 = repo3\<lparr>index :=
                     index_reset (c_tree second_commit) (map dst_path entry_set) (index repo3)\<rparr>
      in (Inr (),
          repo4\<lparr>stdout := stdout repo4
                    @ [NewMergeCommit second_commit (str_dst_paths entry_set)]\<rparr>)))))))"

section \<open>The orchestrator\<close>

fun merge_all ::
  "string \<Rightarrow> ExpectedUpstreamEntry list list \<Rightarrow> repo_state \<Rightarrow> (error + unit) \<times> repo_state" where
  "merge_all tool [] repo = (Inr (), repo)"
| "merge_all tool (entry_set # rest) repo =
     (case merge_files_and_create_commit tool entry_set repo of
        (Inl err, repo1) \<Rightarrow> (Inl err, repo1)
      | (Inr u, repo1) \<Rightarrow> merge_all tool rest repo1)"

text \<open>
  \<^verbatim>\<open>create_commits\<close>. The entries \<^verbatim>\<open>ExpectedUpstreamFile().read_all_entries()\<close> returns
  are the parameter \<open>expected_upstream_entries\<close>: the manifest reader is in \<^verbatim>\<open>common_util\<close>.
  \<^verbatim>\<open>tracking_branch()\<close> returns \<^verbatim>\<open>None\<close> when the branch tracks nothing, and reading
  \<^verbatim>\<open>.name\<close> of \<^verbatim>\<open>None\<close> raises \<^verbatim>\<open>AttributeError\<close>.
\<close>

definition create_commits ::
  "string \<Rightarrow> ExpectedUpstreamEntry list \<Rightarrow> repo_state \<Rightarrow> (error + unit) \<times> repo_state" where
  "create_commits tool expected_upstream_entries repo =
     (case tracking_branch repo of
        None \<Rightarrow> (Inl AttributeError, repo)
      | Some name \<Rightarrow>
     (let repo1 = (if name \<noteq> ''aosp/expected_upstream''
                   then repo\<lparr>stdout := stdout repo @ [BranchWarning (active_branch repo) name]\<rparr>
                   else repo);
          repo2 = repo1\<lparr>stdout := stdout repo1 @ [ReadingExpectedUpstream]\<rparr>
      in case validate_and_remove_updated_entries expected_upstream_entries repo2 of
           (Inl err, repo3) \<Rightarrow> (Inl err, repo3)
         | (Inr outdated_entries, repo3) \<Rightarrow>
             if outdated_entries = []
             then (Inr (), repo3\<lparr>stdout := stdout repo3 @ [NoNeedToUpdate]\<rparr>)
             else
               (let repo4 = repo3\<lparr>stdout := stdout repo3 @ [WillBeUpdated]
                                      @ map (\<lambda>e. DstPathLine (dst_path e)) outdated_entries\<rparr>
                in merge_all tool (partition_entries_by_ref outdated_entries) repo4)))"

section \<open>Notions used in the statements\<close>

text \<open>The distinct elements of a list, in the order of their first occurrence.\<close>

fun first_seen :: "'a list \<Rightarrow> 'a list" where
  "first_seen [] = []"
| "first_seen (x # xs) = x # filter (\<lambda>y. y \<noteq> x) (first_seen xs)"

text \<open>The entries of a list that name a given ref, in the order of the list.\<close>

definition entries_of_ref ::
  "ExpectedUpstreamEntry list \<Rightarrow> string \<Rightarrow> ExpectedUpstreamEntry list" where
  "entries_of_ref entries r = filter (\<lambda>e. git_ref e = r) entries"

text \<open>
  The bytes of an entry's upstream source blob at its resolved ref; \<open>None\<close> when the ref
  does not resolve or the resolved commit's tree has no such path.
\<close>

definition source_blob :: "repo_state \<Rightarrow> ExpectedUpstreamEntry \<Rightarrow> bytes option" where
  "source_blob repo e =
     (case refs repo (git_ref e) of None \<Rightarrow> None | Some c \<Rightarrow> c_tree c (src_path e))"

text \<open>
  An entry is outdated against a tip tree when its destination path is absent from the
  tree, or the destination's bytes differ from the source blob's.
\<close>

definition needs_update :: "repo_state \<Rightarrow> tree \<Rightarrow> ExpectedUpstreamEntry \<Rightarrow> bool" where
  "needs_update repo tip_tree e =
     (tip_tree (dst_path e) = None \<or> tip_tree (dst_path e) \<noteq> source_blob repo e)"

text \<open>The exception an entry without a source blob raises in the filter.\<close>

definition entry_error :: "repo_state \<Rightarrow> ExpectedUpstreamEntry \<Rightarrow> error" where
  "entry_error repo e =
     (case refs repo (git_ref e) of
        None \<Rightarrow> BadName (git_ref e)
      | Some c \<Rightarrow> KeyError (src_path e))"

text \<open>
  The files a group brings in: at a destination path of the group, the upstream blob of
  the last entry of the group with that destination (the only one, when the destinations
  of the group are distinct); nothing at any other path.
\<close>

definition imported_tree :: "tree \<Rightarrow> ExpectedUpstreamEntry list \<Rightarrow> tree" where
  "imported_tree upstream_tree entry_set p =
     (case filter (\<lambda>e. dst_path e = p) entry_set of
        [] \<Rightarrow> None
      | e # es \<Rightarrow> upstream_tree (src_path (last (e # es))))"

text \<open>
  The two commits a successful run of the builder writes and the state it leaves, as
  closed expressions; \<open>merge_ok\<close> and \<open>merge_result\<close> below relate them to
  \<open>merge_files_and_create_commit\<close>.
\<close>

definition import_commit ::
  "string \<Rightarrow> ExpectedUpstreamEntry list \<Rightarrow> commit \<Rightarrow> tree \<Rightarrow> commit" where
  "import_commit tool entry_set upstream base =
     Commit (base ++ imported_tree (c_tree upstream) entry_set) [upstream]
       (MSG_FIRST_COMMIT tool (summary_msg entry_set) (git_ref (hd entry_set))
          (str_dst_paths entry_set))"

definition merged_commit ::
  "string \<Rightarrow> ExpectedUpstreamEntry list \<Rightarrow> commit \<Rightarrow> commit \<Rightarrow> commit" where
  "merged_commit tool entry_set prev first =
     Commit (c_tree prev ++ c_tree first) [prev, first]
       (MSG_SECOND_COMMIT tool (summary_msg entry_set) (git_ref (hd entry_set))
          (str_dst_paths entry_set))"

definition state_after_merge ::
  "string \<Rightarrow> ExpectedUpstreamEntry list \<Rightarrow> commit \<Rightarrow> commit \<Rightarrow> commit \<Rightarrow> repo_state
     \<Rightarrow> repo_state" where
  "state_after_merge tool entry_set upstream ec prev repo =
     (let first = import_commit tool entry_set upstream (c_tree ec);
          second = merged_commit tool entry_set prev first
      in repo\<lparr>refs := (refs repo)(active_branch repo \<mapsto> second),
              commits := commits repo @ [first, second],
              working_tree := working_tree repo ++ imported_tree (c_tree upstream) entry_set,
              index := index_reset (c_tree second) (map dst_path entry_set) (index repo),
              stdout := stdout repo @ [NewMergeCommit second (str_dst_paths entry_set)]\<rparr>)"

text \<open>
  What the source's comment on \<^verbatim>\<open>EMPTY_COMMIT_SHA\<close> says of the commit: it is
  ``an arbitrary existing commit with an empty tree''. The name of the object fixes its
  content, so that this is a fact about the constant; it is a hypothesis wherever a
  statement depends on it.
\<close>

definition empty_commit_ok :: "repo_state \<Rightarrow> bool" where
  "empty_commit_ok repo =
     (\<forall>c. refs repo EMPTY_COMMIT_SHA = Some c \<longrightarrow> c_tree c = Map.empty)"

text \<open>
  The state after the first two steps of \<^verbatim>\<open>create_commits\<close> on a branch that tracks
  \<open>name\<close>: the warning, when \<open>name\<close> is not the expected one, and the line announcing the
  reading of the manifest have been printed.
\<close>

definition announced :: "string \<Rightarrow> repo_state \<Rightarrow> repo_state" where
  "announced name repo =
     repo\<lparr>stdout := stdout repo
        @ (if name \<noteq> ''aosp/expected_upstream''
           then [BranchWarning (active_branch repo) name] else [])
        @ [ReadingExpectedUpstream]\<rparr>"

text \<open>The tree of the branch tip; no file on a branch without a commit.\<close>

definition tip_tree :: "repo_state \<Rightarrow> tree" where
  "tip_tree repo =
     (case refs repo (active_branch repo) of None \<Rightarrow> Map.empty | Some c \<Rightarrow> c_tree c)"

text \<open>
  The listing of the destination paths as the specification words it, ``listed sorted'':
  the paths in ascending order, joined as the script joins them.
\<close>

definition sorted_listing :: "ExpectedUpstreamEntry list \<Rightarrow> string" where
  "sorted_listing entry_set = str_join ''\<newline>  '' (sort (map dst_path entry_set))"

section \<open>A small repository\<close>

text \<open>
  Three entries of a manifest, two upstream commits, the commit with the empty tree, a
  branch tip and a repository holding them, for the concrete instances below.
\<close>

definition ex1 :: ExpectedUpstreamEntry where
  "ex1 = \<lparr>git_ref = ''r1'', src_path = ''a'', dst_path = ''x''\<rparr>"

definition ex2 :: ExpectedUpstreamEntry where
  "ex2 = \<lparr>git_ref = ''r2'', src_path = ''b'', dst_path = ''y''\<rparr>"

definition ex3 :: ExpectedUpstreamEntry where
  "ex3 = \<lparr>git_ref = ''r1'', src_path = ''c'', dst_path = ''z''\<rparr>"

definition ex4 :: ExpectedUpstreamEntry where
  "ex4 = \<lparr>git_ref = ''r2'', src_path = ''b'', dst_path = ''w''\<rparr>"

definition ex5 :: ExpectedUpstreamEntry where
  "ex5 = \<lparr>git_ref = ''r1'', src_path = ''a'', dst_path = ''lib/String.java''\<rparr>"

definition ex_dup :: ExpectedUpstreamEntry where
  "ex_dup = \<lparr>git_ref = ''r1'', src_path = ''c'', dst_path = ''x''\<rparr>"

definition ex_bad :: ExpectedUpstreamEntry where
  "ex_bad = \<lparr>git_ref = ''r1'', src_path = ''nope'', dst_path = ''v''\<rparr>"

definition U1 :: commit where
  "U1 = Commit [''a'' \<mapsto> ''A1'', ''c'' \<mapsto> ''C1''] [] ''upstream one''"

definition U2 :: commit where
  "U2 = Commit [''b'' \<mapsto> ''B2''] [] ''upstream two''"

definition E0 :: commit where
  "E0 = Commit Map.empty [] ''empty''"

definition H0 :: commit where
  "H0 = Commit [''x'' \<mapsto> ''old'', ''k'' \<mapsto> ''keep'', ''w'' \<mapsto> ''B2''] [] ''tip''"

definition R0 :: repo_state where
  "R0 = \<lparr>refs = [''r1'' \<mapsto> U1, ''r2'' \<mapsto> U2, EMPTY_COMMIT_SHA \<mapsto> E0, ''main'' \<mapsto> H0],
          active_branch = ''main'',
          tracking_branch = Some ''aosp/expected_upstream'',
          commits = [],
          working_tree = c_tree H0,
          index = c_tree H0,
          stdout = [],
          stderr = []\<rparr>"

definition R_no_empty :: repo_state where
  "R_no_empty = R0\<lparr>refs := [''r1'' \<mapsto> U1, ''main'' \<mapsto> H0]\<rparr>"

text \<open>The states two runs of the tool leave, on a manifest with distinct destinations and on one
  where two entries name the same destination.\<close>

definition R0_run :: repo_state where
  "R0_run = snd (create_commits ''T'' [ex1, ex2, ex4, ex3] R0)"

definition R0_dup :: repo_state where
  "R0_dup = snd (create_commits ''T'' [ex1, ex_dup] R0)"

section \<open>Properties of the ref partitioner\<close>


lemma set_first_seen: "set (first_seen xs) = set xs"
  by (induction xs) auto

lemma distinct_first_seen: "distinct (first_seen xs)"
  by (induction xs) (auto simp: set_first_seen)

lemma first_seen_snoc:
  "first_seen (xs @ [x]) = (if x \<in> set xs then first_seen xs else first_seen xs @ [x])"
  by (induction xs) (auto simp: set_first_seen)

lemma partition_loop_snoc:
  "partition_loop (es @ [e]) m = partition_step e (partition_loop es m)"
  by (induction es arbitrary: m) auto

lemma map_of_tabulate:
  "map_of (map (\<lambda>r. (r, f r)) ks) k = (if k \<in> set ks then Some (f k) else None)"
  by (induction ks) auto

lemma map_entry_tabulate:
  "distinct ks \<Longrightarrow> AList.map_entry k g (map (\<lambda>r. (r, f r)) ks) = map (\<lambda>r. (r, if r = k then g (f r) else f r)) ks"
  by (induction ks) auto

lemma update_fresh: "k \<notin> fst ` set m \<Longrightarrow> AList.update k v m = m @ [(k, v)]"
  by (induction m) auto

lemma map_entry_fresh_snoc:
  "k \<notin> fst ` set m \<Longrightarrow> AList.map_entry k g (m @ [(k, v)]) = m @ [(k, g v)]"
  by (induction m) auto

lemma partition_loop_eq:
  "partition_loop entries [] =
     map (\<lambda>r. (r, entries_of_ref entries r)) (first_seen (map git_ref entries))"
proof (induction entries rule: rev_induct)
  case Nil
  show ?case by simp
next
  case (snoc e es)
  let ?ks = "first_seen (map git_ref es)"
  show ?case
  proof (cases "git_ref e \<in> set (map git_ref es)")
    case True
    then have "git_ref e \<in> set ?ks" by (simp add: set_first_seen)
    then show ?thesis
      using snoc True
      by (simp add: partition_loop_snoc partition_step_def map_of_tabulate
          map_entry_tabulate distinct_first_seen first_seen_snoc entries_of_ref_def)
  next
    case False
    then have fresh: "git_ref e \<notin> fst ` set (map (\<lambda>r. (r, entries_of_ref es r)) ?ks)"
      by (simp add: set_first_seen image_image)
    have same: "map (\<lambda>r. (r, entries_of_ref (es @ [e]) r)) ?ks = map (\<lambda>r. (r, entries_of_ref es r)) ?ks"
      using False by (auto simp: set_first_seen entries_of_ref_def)
    have none: "entries_of_ref es (git_ref e) = []"
      unfolding entries_of_ref_def filter_empty_conv
    proof
      fix x assume "x \<in> set es"
      then have "git_ref x \<in> set (map git_ref es)" by simp
      with False show "git_ref x \<noteq> git_ref e" by metis
    qed
    show ?thesis
      using snoc False fresh
      by (simp add: partition_loop_snoc partition_step_def map_of_tabulate set_first_seen
          update_fresh map_entry_fresh_snoc first_seen_snoc same)
        (simp add: entries_of_ref_def none[unfolded entries_of_ref_def])
  qed
qed

lemma partition_entries_by_ref_eq:
  "partition_entries_by_ref entries =
     map (entries_of_ref entries) (first_seen (map git_ref entries))"
  by (simp add: partition_entries_by_ref_def partition_loop_eq comp_def)

lemma mset_filter_disjoint:
  "(\<And>x. \<not> (P x \<and> Q x)) \<Longrightarrow>
     mset (filter P es) + mset (filter Q es) = mset (filter (\<lambda>x. P x \<or> Q x) es)"
  by (induction es) auto

lemma mset_concat_by_key:
  "distinct ks \<Longrightarrow>
     mset (concat (map (\<lambda>r. filter (\<lambda>e. f e = r) es) ks)) = mset (filter (\<lambda>e. f e \<in> set ks) es)"
proof (induction ks)
  case Nil
  show ?case by simp
next
  case (Cons k ks)
  have split: "mset (filter (\<lambda>e. f e = k) es) + mset (filter (\<lambda>e. f e \<in> set ks) es)
      = mset (filter (\<lambda>e. f e = k \<or> f e \<in> set ks) es)"
    using Cons.prems by (intro mset_filter_disjoint) auto
  show ?case using Cons split by simp
qed

lemma mset_concat_partition:
  "mset (concat (partition_entries_by_ref entries)) = mset entries"
proof -
  have "mset (concat (map (\<lambda>r. filter (\<lambda>e. git_ref e = r) entries) (first_seen (map git_ref entries))))
      = mset (filter (\<lambda>e. git_ref e \<in> set (first_seen (map git_ref entries))) entries)"
    by (rule mset_concat_by_key) (rule distinct_first_seen)
  also have "\<dots> = mset entries"
    by (simp add: set_first_seen)
  finally show ?thesis
    by (simp add: partition_entries_by_ref_eq entries_of_ref_def[abs_def])
qed

lemma partition_group_props:
  assumes "g \<in> set (partition_entries_by_ref entries)"
  shows "g \<noteq> []" and "\<forall>e\<in>set g. git_ref e = git_ref (hd g)"
    and "g = entries_of_ref entries (git_ref (hd g))"
proof -
  from assms obtain r where r: "r \<in> set (map git_ref entries)" and g: "g = entries_of_ref entries r"
    by (auto simp: partition_entries_by_ref_eq set_first_seen)
  from r obtain e where "e \<in> set entries" "git_ref e = r" by auto
  then have "e \<in> set g" by (simp add: g entries_of_ref_def)
  then show ne: "g \<noteq> []" by auto
  have all: "\<forall>e\<in>set g. git_ref e = r" by (simp add: g entries_of_ref_def)
  from ne have "hd g \<in> set g" by simp
  with all have hd: "git_ref (hd g) = r" by blast
  from all hd show "\<forall>e\<in>set g. git_ref e = git_ref (hd g)" by simp
  from g hd show "g = entries_of_ref entries (git_ref (hd g))" by simp
qed

lemma partition_refs_first_seen:
  "map (\<lambda>g. git_ref (hd g)) (partition_entries_by_ref entries) = first_seen (map git_ref entries)"
proof -
  have "\<And>r. r \<in> set (first_seen (map git_ref entries)) \<Longrightarrow> git_ref (hd (entries_of_ref entries r)) = r"
  proof -
    fix r assume "r \<in> set (first_seen (map git_ref entries))"
    then have "r \<in> set (map git_ref entries)" by (simp add: set_first_seen)
    then obtain e where "e \<in> set entries" "git_ref e = r" by auto
    then have "entries_of_ref entries r \<noteq> []" by (auto simp: entries_of_ref_def filter_empty_conv)
    then have "hd (entries_of_ref entries r) \<in> set (entries_of_ref entries r)" by simp
    then show "git_ref (hd (entries_of_ref entries r)) = r" by (simp add: entries_of_ref_def)
  qed
  then show ?thesis
    by (simp add: partition_entries_by_ref_eq comp_def map_idI)
qed

text \<open>
  Claim C4. For every list of entries, no group of the partition is empty; the entries of
  a group all name the ref of its first entry; the refs of the groups are the refs of the
  input in the order of their first occurrence; each group is the sublist of the input
  of the entries that name its ref, so that it keeps the input's order; the groups
  concatenated are a permutation of the input; and the empty input gives no group. The
  partitioner is a function of the list alone: it reads and writes no state.
\<close>

theorem partition_entries_by_ref_groups:
  "[] \<notin> set (partition_entries_by_ref entries)
   \<and> (\<forall>g\<in>set (partition_entries_by_ref entries). \<forall>e\<in>set g. git_ref e = git_ref (hd g))
   \<and> map (\<lambda>g. git_ref (hd g)) (partition_entries_by_ref entries) = first_seen (map git_ref entries)
   \<and> (\<forall>g\<in>set (partition_entries_by_ref entries). g = entries_of_ref entries (git_ref (hd g)))
   \<and> mset (concat (partition_entries_by_ref entries)) = mset entries
   \<and> partition_entries_by_ref [] = []"
proof -
  have 1: "[] \<notin> set (partition_entries_by_ref entries)"
    using partition_group_props(1) by blast
  have 2: "\<forall>g\<in>set (partition_entries_by_ref entries). \<forall>e\<in>set g. git_ref e = git_ref (hd g)"
    using partition_group_props(2) by blast
  have 4: "\<forall>g\<in>set (partition_entries_by_ref entries). g = entries_of_ref entries (git_ref (hd g))"
    using partition_group_props(3) by blast
  have 6: "partition_entries_by_ref [] = []"
    by (simp add: partition_entries_by_ref_def)
  from 1 2 4 6 partition_refs_first_seen mset_concat_partition show ?thesis by blast
qed

lemma ex_partition: "partition_entries_by_ref [ex1, ex2, ex3] = [[ex1, ex3], [ex2]]"
  by (simp add: partition_entries_by_ref_def partition_step_def ex1_def ex2_def ex3_def)

theorem partition_entries_by_ref_groups_witness:
  "partition_entries_by_ref [ex1, ex2, ex3] = [[ex1, ex3], [ex2]]
   \<and> [] \<notin> set (partition_entries_by_ref [ex1, ex2, ex3])
   \<and> map (\<lambda>g. git_ref (hd g)) (partition_entries_by_ref [ex1, ex2, ex3]) = [''r1'', ''r2'']
   \<and> entries_of_ref [ex1, ex2, ex3] ''r1'' = [ex1, ex3]
   \<and> entries_of_ref [ex1, ex2, ex3] ''r2'' = [ex2]
   \<and> mset (concat (partition_entries_by_ref [ex1, ex2, ex3])) = mset [ex1, ex2, ex3]"
  using partition_entries_by_ref_groups [of "[ex1, ex2, ex3]"]
  apply (simp only: ex_partition)
  apply (simp add: entries_of_ref_def ex1_def ex2_def ex3_def)
  done

section \<open>Properties of the staleness filter\<close>

lemma source_blob_cong: "refs r1 = refs r2 \<Longrightarrow> source_blob r1 e = source_blob r2 e"
  by (simp add: source_blob_def)

lemma entry_error_cong: "refs r1 = refs r2 \<Longrightarrow> entry_error r1 e = entry_error r2 e"
  by (simp add: entry_error_def)

lemma needs_update_cong: "refs r1 = refs r2 \<Longrightarrow> needs_update r1 t e = needs_update r2 t e"
  by (simp add: needs_update_def source_blob_def)

lemma entry_outdated_eq:
  "entry_outdated repo ht e =
     (case source_blob repo e of
        None \<Rightarrow> Inl (entry_error repo e)
      | Some s \<Rightarrow> Inr (needs_update repo ht e))"
  by (auto simp: entry_outdated_def source_blob_def entry_error_def needs_update_def
      repo_commit_def tree_join_def has_file_in_tree_def split: option.splits)

lemma validate_loop_ok:
  "\<forall>e\<in>set es. source_blob repo e \<noteq> None \<Longrightarrow>
     validate_loop ht es acc repo = (Inr (acc @ filter (needs_update repo ht) es), repo)"
  by (induction es arbitrary: acc) (auto simp: entry_outdated_eq)

lemma validate_loop_fail:
  "List.find (\<lambda>e. source_blob repo e = None) es = Some bad \<Longrightarrow>
     validate_loop ht es acc repo =
       (Inl (entry_error repo bad), repo\<lparr>stderr := stderr repo @ [ErrorReadingEntry bad]\<rparr>)"
  by (induction es arbitrary: acc) (auto simp: entry_outdated_eq split: if_splits)

lemma find_unreadable:
  "\<not> (\<forall>e\<in>set es. source_blob repo e \<noteq> None) \<Longrightarrow>
     \<exists>bad. List.find (\<lambda>e. source_blob repo e = None) es = Some bad"
  by (cases "List.find (\<lambda>e. source_blob repo e = None) es") (auto simp: find_None_iff)

lemma validate_ok:
  assumes "refs repo (active_branch repo) = Some tip"
    and "\<forall>e\<in>set entries. source_blob repo e \<noteq> None"
  shows "validate_and_remove_updated_entries entries repo =
     (Inr (filter (needs_update repo (c_tree tip)) entries), repo)"
  using assms
  by (simp add: validate_and_remove_updated_entries_def head_commit_def validate_loop_ok)

lemma validate_fail:
  assumes "refs repo (active_branch repo) = Some tip"
    and "List.find (\<lambda>e. source_blob repo e = None) entries = Some bad"
  shows "validate_and_remove_updated_entries entries repo =
     (Inl (entry_error repo bad), repo\<lparr>stderr := stderr repo @ [ErrorReadingEntry bad]\<rparr>)"
  using assms
  by (simp add: validate_and_remove_updated_entries_def head_commit_def validate_loop_fail)

lemma validate_no_tip:
  assumes "refs repo (active_branch repo) = None"
  shows "validate_and_remove_updated_entries entries repo = (Inl ValueError, repo)"
  using assms by (simp add: validate_and_remove_updated_entries_def head_commit_def)

lemma validate_Inr:
  assumes "validate_and_remove_updated_entries entries repo = (Inr result, repo')"
  shows "\<exists>tip. refs repo (active_branch repo) = Some tip
      \<and> (\<forall>e\<in>set entries. source_blob repo e \<noteq> None)
      \<and> result = filter (needs_update repo (c_tree tip)) entries \<and> repo' = repo"
proof (cases "refs repo (active_branch repo)")
  case None
  with assms show ?thesis by (simp add: validate_no_tip)
next
  case (Some tip)
  show ?thesis
  proof (cases "\<forall>e\<in>set entries. source_blob repo e \<noteq> None")
    case True
    with assms Some show ?thesis by (auto simp: validate_ok)
  next
    case False
    then obtain bad where "List.find (\<lambda>e. source_blob repo e = None) entries = Some bad"
      using find_unreadable by blast
    with assms Some show ?thesis by (simp add: validate_fail)
  qed
qed

text \<open>
  Claim C2. On a branch with a tip, the filter returns a list exactly when every entry
  has a source blob at its resolved ref, and the list is then the input filtered by
  \<open>needs_update\<close>: the entries whose destination is absent from the tip's tree or differs
  in bytes from the source blob, in the order of the input; an entry with equal content
  is dropped. The repository is left as it was.
\<close>

theorem validate_and_remove_updated_entries_result:
  assumes "refs repo (active_branch repo) = Some tip"
  shows "((validate_and_remove_updated_entries entries repo = (Inr result, repo'))
       = ((\<forall>e\<in>set entries. source_blob repo e \<noteq> None)
          \<and> result = filter (needs_update repo (c_tree tip)) entries \<and> repo' = repo))
     \<and> (validate_and_remove_updated_entries entries repo = (Inr result, repo')
          \<longrightarrow> subseq result entries)"
proof -
  have iff: "(validate_and_remove_updated_entries entries repo = (Inr result, repo'))
       = ((\<forall>e\<in>set entries. source_blob repo e \<noteq> None)
          \<and> result = filter (needs_update repo (c_tree tip)) entries \<and> repo' = repo)"
  proof
    assume "validate_and_remove_updated_entries entries repo = (Inr result, repo')"
    from validate_Inr [OF this] assms
    show "(\<forall>e\<in>set entries. source_blob repo e \<noteq> None)
          \<and> result = filter (needs_update repo (c_tree tip)) entries \<and> repo' = repo"
      by auto
  next
    assume "(\<forall>e\<in>set entries. source_blob repo e \<noteq> None)
          \<and> result = filter (needs_update repo (c_tree tip)) entries \<and> repo' = repo"
    with assms show "validate_and_remove_updated_entries entries repo = (Inr result, repo')"
      by (simp add: validate_ok)
  qed
  have "validate_and_remove_updated_entries entries repo = (Inr result, repo')
          \<longrightarrow> subseq result entries"
    using iff by auto
  with iff show ?thesis by blast
qed

lemma R0_refs:
  "refs R0 ''r1'' = Some U1" "refs R0 ''r2'' = Some U2"
  "refs R0 EMPTY_COMMIT_SHA = Some E0" "refs R0 ''main'' = Some H0"
  "active_branch R0 = ''main''"
  by (simp_all add: R0_def EMPTY_COMMIT_SHA_def)

lemma R0_source_blob:
  "source_blob R0 ex1 = Some ''A1''" "source_blob R0 ex2 = Some ''B2''"
  "source_blob R0 ex3 = Some ''C1''" "source_blob R0 ex4 = Some ''B2''"
  "source_blob R0 ex_bad = None"
  by (simp_all add: source_blob_def R0_refs ex1_def ex2_def ex3_def ex4_def ex_bad_def
      U1_def U2_def)

lemma R0_needs_update:
  "needs_update R0 (c_tree H0) ex1" "needs_update R0 (c_tree H0) ex2"
  "needs_update R0 (c_tree H0) ex3" "\<not> needs_update R0 (c_tree H0) ex4"
  by (simp_all add: needs_update_def R0_source_blob)
    (simp_all add: H0_def ex1_def ex2_def ex3_def ex4_def)

theorem validate_and_remove_updated_entries_result_witness:
  "refs R0 (active_branch R0) = Some H0
   \<and> validate_and_remove_updated_entries [ex1, ex2, ex4, ex3] R0 = (Inr [ex1, ex2, ex3], R0)
   \<and> subseq [ex1, ex2, ex3] [ex1, ex2, ex4, ex3]"
proof -
  have tip: "refs R0 (active_branch R0) = Some H0" by (simp add: R0_refs)
  have src: "\<forall>e\<in>set [ex1, ex2, ex4, ex3]. source_blob R0 e \<noteq> None"
    by (simp add: R0_source_blob)
  have flt: "[ex1, ex2, ex3] = filter (needs_update R0 (c_tree H0)) [ex1, ex2, ex4, ex3]"
    by (simp add: R0_needs_update)
  from validate_and_remove_updated_entries_result
    [OF tip, of "[ex1, ex2, ex4, ex3]" "[ex1, ex2, ex3]" R0] src flt
  have "validate_and_remove_updated_entries [ex1, ex2, ex4, ex3] R0 = (Inr [ex1, ex2, ex3], R0)"
    and "subseq [ex1, ex2, ex3] [ex1, ex2, ex4, ex3]"
    by blast+
  with tip show ?thesis by blast
qed

section \<open>Properties of the commit builder\<close>

lemma imported_tree_Nil: "imported_tree ut [] = Map.empty"
  by (rule ext) (simp add: imported_tree_def)

lemma imported_tree_Cons:
  "imported_tree ut (e # es) p =
     (if filter (\<lambda>x. dst_path x = p) es = []
      then (if dst_path e = p then ut (src_path e) else None)
      else imported_tree ut es p)"
  by (auto simp: imported_tree_def split: list.splits)

lemma imported_tree_None_filter:
  assumes "\<forall>e\<in>set es. ut (src_path e) \<noteq> None"
  shows "(imported_tree ut es p = None) = (filter (\<lambda>e. dst_path e = p) es = [])"
proof (cases "filter (\<lambda>e. dst_path e = p) es")
  case Nil
  then show ?thesis by (simp add: imported_tree_def)
next
  case (Cons x xs)
  then have "last (x # xs) \<in> set (filter (\<lambda>e. dst_path e = p) es)"
    by (metis last_in_set list.distinct(1))
  then have "last (x # xs) \<in> set es" by simp
  with assms have "ut (src_path (last (x # xs))) \<noteq> None" by blast
  then show ?thesis by (simp add: imported_tree_def Cons)
qed

lemma imported_tree_None:
  assumes "\<forall>e\<in>set es. ut (src_path e) \<noteq> None"
  shows "(imported_tree ut es p = None) = (p \<notin> dst_path ` set es)"
proof -
  have "(filter (\<lambda>e. dst_path e = p) es = []) = (p \<notin> dst_path ` set es)"
    by (auto simp: filter_empty_conv)
  with imported_tree_None_filter [OF assms] show ?thesis by simp
qed

lemma dom_imported_tree:
  "\<forall>e\<in>set es. ut (src_path e) \<noteq> None \<Longrightarrow> dom (imported_tree ut es) = dst_path ` set es"
  using imported_tree_None [of es ut] by (auto simp: dom_def)

lemma upd_add_imported:
  assumes "\<forall>e\<in>set es. ut (src_path e) \<noteq> None" and "ut (src_path e) = Some b"
  shows "m(dst_path e \<mapsto> b) ++ imported_tree ut es = m ++ imported_tree ut (e # es)"
proof (rule ext)
  fix p
  show "(m(dst_path e \<mapsto> b) ++ imported_tree ut es) p = (m ++ imported_tree ut (e # es)) p"
  proof (cases "filter (\<lambda>x. dst_path x = p) es = []")
    case True
    then have "p \<notin> dst_path ` set es" by (auto simp: filter_empty_conv)
    then have "imported_tree ut es p = None"
      using imported_tree_None [OF assms(1)] by simp
    then show ?thesis using True assms(2)
      by (simp add: map_add_def imported_tree_Cons)
  next
    case False
    then have "imported_tree ut es p \<noteq> None"
      using imported_tree_None_filter [OF assms(1)] by simp
    with False show ?thesis by (auto simp: map_add_def imported_tree_Cons)
  qed
qed

lemma import_loop_ok:
  "\<forall>e\<in>set es. ut (src_path e) \<noteq> None \<Longrightarrow>
     import_loop ut es idx repo =
       (Inr (idx ++ imported_tree ut es),
        repo\<lparr>working_tree := working_tree repo ++ imported_tree ut es\<rparr>)"
proof (induction es arbitrary: idx repo)
  case Nil
  show ?case by (simp add: imported_tree_Nil)
next
  case (Cons e es)
  from Cons.prems obtain b where b: "ut (src_path e) = Some b" by auto
  from Cons.prems have rest: "\<forall>e\<in>set es. ut (src_path e) \<noteq> None" by simp
  have "import_loop ut (e # es) idx repo =
      import_loop ut es (idx(dst_path e \<mapsto> b))
        (repo\<lparr>working_tree := (working_tree repo)(dst_path e \<mapsto> b)\<rparr>)"
    by (simp add: b tree_join_def index_add_def)
  also have "\<dots> = (Inr (idx(dst_path e \<mapsto> b) ++ imported_tree ut es),
      repo\<lparr>working_tree := (working_tree repo)(dst_path e \<mapsto> b) ++ imported_tree ut es\<rparr>)"
  proof -
    let ?r = "repo\<lparr>working_tree := (working_tree repo)(dst_path e \<mapsto> b)\<rparr>"
    have "?r\<lparr>working_tree := working_tree ?r ++ imported_tree ut es\<rparr> =
        repo\<lparr>working_tree := (working_tree repo)(dst_path e \<mapsto> b) ++ imported_tree ut es\<rparr>"
      by simp
    with Cons.IH [OF rest, of "idx(dst_path e \<mapsto> b)" ?r] show ?thesis
      by (simp only:)
  qed
  also have "\<dots> = (Inr (idx ++ imported_tree ut (e # es)),
      repo\<lparr>working_tree := working_tree repo ++ imported_tree ut (e # es)\<rparr>)"
    by (simp only: upd_add_imported [OF rest b])
  finally show ?case .
qed

lemma import_loop_Inr:
  "import_loop ut es idx repo = (Inr i, r) \<Longrightarrow> \<forall>e\<in>set es. ut (src_path e) \<noteq> None"
  by (induction es arbitrary: idx repo)
    (auto simp: tree_join_def index_add_def split: option.splits)

lemma merge_ok:
  assumes "entry_set \<noteq> []"
    and "refs repo (git_ref (hd entry_set)) = Some upstream"
    and "refs repo EMPTY_COMMIT_SHA = Some ec"
    and "\<forall>e\<in>set entry_set. c_tree upstream (src_path e) \<noteq> None"
    and "refs repo (active_branch repo) = Some prev"
  shows "merge_files_and_create_commit tool entry_set repo =
    (Inr (), state_after_merge tool entry_set upstream ec prev repo)"
proof -
  from assms(1) obtain e0 rest where es: "entry_set = e0 # rest" by (cases entry_set) auto
  show ?thesis
    using assms(2,3,5)
    by (simp add: es merge_files_and_create_commit_def repo_commit_def fresh_index_def
        index_from_tree_def import_loop_ok [OF assms(4), unfolded es] index_commit_def
        head_commit_def Let_def import_commit_def merged_commit_def state_after_merge_def
        del: import_loop.simps)
qed

lemma merge_Inr:
  assumes "merge_files_and_create_commit tool entry_set repo = (Inr u, repo')"
  shows "entry_set \<noteq> [] \<and> (\<exists>upstream ec prev.
      refs repo (git_ref (hd entry_set)) = Some upstream
    \<and> refs repo EMPTY_COMMIT_SHA = Some ec
    \<and> (\<forall>e\<in>set entry_set. c_tree upstream (src_path e) \<noteq> None)
    \<and> refs repo (active_branch repo) = Some prev)"
proof (cases entry_set)
  case Nil
  with assms show ?thesis by (simp add: merge_files_and_create_commit_def)
next
  case (Cons e0 rest)
  from assms obtain upstream where up: "refs repo (git_ref e0) = Some upstream"
    by (cases "refs repo (git_ref e0)")
      (auto simp: Cons merge_files_and_create_commit_def repo_commit_def)
  from assms obtain ec where ec: "refs repo EMPTY_COMMIT_SHA = Some ec"
    by (cases "refs repo EMPTY_COMMIT_SHA")
      (auto simp: Cons up merge_files_and_create_commit_def repo_commit_def fresh_index_def)
  obtain res r1 where il: "import_loop (c_tree upstream) entry_set (c_tree ec) repo = (res, r1)"
    by (cases "import_loop (c_tree upstream) entry_set (c_tree ec) repo") auto
  from assms obtain i where i: "res = Inr i"
    using il by (cases res)
      (auto simp: Cons up ec merge_files_and_create_commit_def repo_commit_def fresh_index_def
        index_from_tree_def simp del: import_loop.simps)
  from il i have srcs: "\<forall>e\<in>set entry_set. c_tree upstream (src_path e) \<noteq> None"
    using import_loop_Inr by blast
  have "\<exists>prev. refs repo (active_branch repo) = Some prev"
  proof (cases "refs repo (active_branch repo)")
    case None
    with assms show ?thesis
      by (simp add: Cons up ec merge_files_and_create_commit_def repo_commit_def fresh_index_def
        index_from_tree_def import_loop_ok [OF srcs, unfolded Cons] index_commit_def
        head_commit_def Let_def del: import_loop.simps)
  next
    case (Some a)
    then show ?thesis by simp
  qed
  with up ec srcs show ?thesis by (auto simp: Cons)
qed

lemma merge_result:
  assumes "merge_files_and_create_commit tool entry_set repo = (Inr u, repo')"
  shows "\<exists>upstream ec prev.
      entry_set \<noteq> []
    \<and> refs repo (git_ref (hd entry_set)) = Some upstream
    \<and> refs repo EMPTY_COMMIT_SHA = Some ec
    \<and> (\<forall>e\<in>set entry_set. c_tree upstream (src_path e) \<noteq> None)
    \<and> refs repo (active_branch repo) = Some prev
    \<and> repo' = state_after_merge tool entry_set upstream ec prev repo"
proof -
  from merge_Inr [OF assms] obtain upstream ec prev where
    h: "entry_set \<noteq> []" "refs repo (git_ref (hd entry_set)) = Some upstream"
       "refs repo EMPTY_COMMIT_SHA = Some ec"
       "\<forall>e\<in>set entry_set. c_tree upstream (src_path e) \<noteq> None"
       "refs repo (active_branch repo) = Some prev"
    by blast
  from merge_ok [OF h, of tool] assms
  have "repo' = state_after_merge tool entry_set upstream ec prev repo" by simp
  with h show ?thesis by blast
qed

lemma state_after_merge_sel:
  "refs (state_after_merge tool es u ec prev repo) =
     (refs repo)(active_branch repo \<mapsto>
        merged_commit tool es prev (import_commit tool es u (c_tree ec)))"
  "commits (state_after_merge tool es u ec prev repo) =
     commits repo @ [import_commit tool es u (c_tree ec),
        merged_commit tool es prev (import_commit tool es u (c_tree ec))]"
  "active_branch (state_after_merge tool es u ec prev repo) = active_branch repo"
  "tracking_branch (state_after_merge tool es u ec prev repo) = tracking_branch repo"
  "stderr (state_after_merge tool es u ec prev repo) = stderr repo"
  by (simp_all add: state_after_merge_def Let_def)

lemma commit_sel:
  "c_tree (import_commit tool es u base) = base ++ imported_tree (c_tree u) es"
  "c_parents (import_commit tool es u base) = [u]"
  "c_tree (merged_commit tool es prev first) = c_tree prev ++ c_tree first"
  "c_parents (merged_commit tool es prev first) = [prev, first]"
  by (simp_all add: import_commit_def merged_commit_def)

lemma R0_empty_commit_ok: "empty_commit_ok R0"
  by (simp add: empty_commit_ok_def R0_refs E0_def)

lemma R0_merge:
  "merge_files_and_create_commit ''T'' [ex1, ex3] R0 =
     (Inr (), state_after_merge ''T'' [ex1, ex3] U1 E0 H0 R0)"
  by (rule merge_ok) (simp_all add: R0_refs ex1_def ex3_def U1_def)

lemma filter_dst_empty:
  "(filter (\<lambda>y. dst_path y = p) xs = []) = (p \<notin> dst_path ` set xs)"
  by (induction xs) auto

lemma imported_tree_distinct:
  "distinct (map dst_path es) \<Longrightarrow> e \<in> set es \<Longrightarrow>
     imported_tree ut es (dst_path e) = ut (src_path e)"
proof (induction es)
  case Nil
  then show ?case by simp
next
  case (Cons x xs)
  show ?case
  proof (cases "e = x")
    case True
    with Cons.prems have "filter (\<lambda>y. dst_path y = dst_path x) xs = []"
      by (simp add: filter_dst_empty)
    with True show ?thesis by (simp add: imported_tree_Cons)
  next
    case False
    with Cons.prems have e: "e \<in> set xs" by simp
    then have "filter (\<lambda>y. dst_path y = dst_path e) xs \<noteq> []"
      by (simp add: filter_dst_empty)
    with Cons e show ?thesis by (simp add: imported_tree_Cons)
  qed
qed

text \<open>
  Claim C1. When the builder has processed a group, the tree of the new branch tip is the
  tree of the previous tip with the group's destination paths replaced: at every
  destination path of the group it holds the upstream blob the group brings there (of
  the entry with that destination, the last one should several entries name it), and at
  every other path it is the previous tip's tree. The index of the import commit starts
  from the tree of the commit \<^verbatim>\<open>EMPTY_COMMIT_SHA\<close> names, taken to be empty as the source
  says it is.
\<close>

theorem merge_files_and_create_commit_tip_tree:
  assumes "merge_files_and_create_commit tool entry_set repo = (Inr (), repo')"
    and "empty_commit_ok repo"
  shows "\<exists>upstream prev new.
      refs repo (git_ref (hd entry_set)) = Some upstream
    \<and> refs repo (active_branch repo) = Some prev
    \<and> refs repo' (active_branch repo') = Some new
    \<and> (\<forall>p. c_tree new p =
          (if p \<in> dst_path ` set entry_set
           then imported_tree (c_tree upstream) entry_set p else c_tree prev p))
    \<and> (\<forall>e\<in>set entry_set. c_tree upstream (src_path e) \<noteq> None)
    \<and> (distinct (map dst_path entry_set) \<longrightarrow>
          (\<forall>e\<in>set entry_set. c_tree new (dst_path e) = c_tree upstream (src_path e)))"
proof -
  from merge_result [OF assms(1)] obtain upstream ec prev where
    h: "refs repo (git_ref (hd entry_set)) = Some upstream"
       "refs repo EMPTY_COMMIT_SHA = Some ec"
       "\<forall>e\<in>set entry_set. c_tree upstream (src_path e) \<noteq> None"
       "refs repo (active_branch repo) = Some prev"
    and r: "repo' = state_after_merge tool entry_set upstream ec prev repo"
    by blast
  let ?new = "merged_commit tool entry_set prev (import_commit tool entry_set upstream (c_tree ec))"
  from assms(2) h(2) have ec: "c_tree ec = Map.empty" by (simp add: empty_commit_ok_def)
  have tree: "c_tree ?new = c_tree prev ++ imported_tree (c_tree upstream) entry_set"
    by (simp add: commit_sel ec)
  have tip: "refs repo' (active_branch repo') = Some ?new" by (simp add: r state_after_merge_sel)
  have frame: "\<forall>p. c_tree ?new p =
          (if p \<in> dst_path ` set entry_set
           then imported_tree (c_tree upstream) entry_set p else c_tree prev p)"
  proof
    fix p
    show "c_tree ?new p =
          (if p \<in> dst_path ` set entry_set
           then imported_tree (c_tree upstream) entry_set p else c_tree prev p)"
      using imported_tree_None [OF h(3), of p]
      by (auto simp: tree map_add_def split: option.splits)
  qed
  have each: "distinct (map dst_path entry_set) \<longrightarrow>
          (\<forall>e\<in>set entry_set. c_tree ?new (dst_path e) = c_tree upstream (src_path e))"
    using frame by (simp add: imported_tree_distinct)
  from h(1) h(4) tip frame h(3) each show ?thesis by blast
qed

theorem merge_files_and_create_commit_tip_tree_witness:
  "merge_files_and_create_commit ''T'' [ex1, ex3] R0 =
     (Inr (), state_after_merge ''T'' [ex1, ex3] U1 E0 H0 R0)
   \<and> empty_commit_ok R0
   \<and> (\<exists>new. refs (state_after_merge ''T'' [ex1, ex3] U1 E0 H0 R0) ''main'' = Some new
        \<and> c_tree new ''x'' = Some ''A1'' \<and> c_tree new ''z'' = Some ''C1''
        \<and> c_tree new ''k'' = Some ''keep'' \<and> c_tree new ''q'' = None)"
proof -
  let ?R = "state_after_merge ''T'' [ex1, ex3] U1 E0 H0 R0"
  from merge_files_and_create_commit_tip_tree [OF R0_merge R0_empty_commit_ok]
  obtain upstream prev new where
    u: "refs R0 (git_ref (hd [ex1, ex3])) = Some upstream"
    and p: "refs R0 (active_branch R0) = Some prev"
    and n: "refs ?R (active_branch ?R) = Some new"
    and f: "\<forall>p. c_tree new p =
          (if p \<in> dst_path ` set [ex1, ex3]
           then imported_tree (c_tree upstream) [ex1, ex3] p else c_tree prev p)"
    by blast
  from u have u1: "upstream = U1" by (simp add: ex1_def R0_refs)
  from p have h0: "prev = H0" by (simp add: R0_refs)
  from n have tip: "refs ?R ''main'' = Some new" by (simp add: state_after_merge_sel R0_refs)
  have "c_tree new ''x'' = Some ''A1''" "c_tree new ''z'' = Some ''C1''"
    "c_tree new ''k'' = Some ''keep''" "c_tree new ''q'' = None"
    by (simp_all add: f u1 h0 imported_tree_def ex1_def ex3_def U1_def H0_def)
  with tip R0_merge R0_empty_commit_ok show ?thesis by blast
qed

text \<open>
  Claim C3. When the builder has processed a group, it has written two commits: the
  import commit, whose only parent is the commit the ref of the group's first entry
  resolves to, and the merge commit, whose parents are the previous branch tip and the
  import commit, in this order; the merge commit is the new branch tip.
\<close>

theorem merge_files_and_create_commit_parents:
  assumes "merge_files_and_create_commit tool entry_set repo = (Inr (), repo')"
  shows "\<exists>upstream prev first second.
      refs repo (git_ref (hd entry_set)) = Some upstream
    \<and> refs repo (active_branch repo) = Some prev
    \<and> commits repo' = commits repo @ [first, second]
    \<and> c_parents first = [upstream]
    \<and> c_parents second = [prev, first]
    \<and> refs repo' (active_branch repo') = Some second"
proof -
  from merge_result [OF assms] obtain upstream ec prev where
    h: "refs repo (git_ref (hd entry_set)) = Some upstream"
       "refs repo (active_branch repo) = Some prev"
    and r: "repo' = state_after_merge tool entry_set upstream ec prev repo"
    by blast
  let ?first = "import_commit tool entry_set upstream (c_tree ec)"
  let ?second = "merged_commit tool entry_set prev ?first"
  have "commits repo' = commits repo @ [?first, ?second]"
    "c_parents ?first = [upstream]" "c_parents ?second = [prev, ?first]"
    "refs repo' (active_branch repo') = Some ?second"
    by (simp_all add: r state_after_merge_sel commit_sel)
  with h show ?thesis by blast
qed

theorem merge_files_and_create_commit_parents_witness:
  "merge_files_and_create_commit ''T'' [ex1, ex3] R0 =
     (Inr (), state_after_merge ''T'' [ex1, ex3] U1 E0 H0 R0)
   \<and> (\<exists>first second.
         commits (state_after_merge ''T'' [ex1, ex3] U1 E0 H0 R0) = [first, second]
       \<and> c_parents first = [U1]
       \<and> c_parents second = [H0, first]
       \<and> refs (state_after_merge ''T'' [ex1, ex3] U1 E0 H0 R0) ''main'' = Some second)"
proof -
  let ?R = "state_after_merge ''T'' [ex1, ex3] U1 E0 H0 R0"
  from merge_files_and_create_commit_parents [OF R0_merge]
  obtain upstream prev first second where
    u: "refs R0 (git_ref (hd [ex1, ex3])) = Some upstream"
    and p: "refs R0 (active_branch R0) = Some prev"
    and c: "commits ?R = commits R0 @ [first, second]"
    and ps: "c_parents first = [upstream]" "c_parents second = [prev, first]"
    and n: "refs ?R (active_branch ?R) = Some second"
    by blast
  from u have u1: "upstream = U1" by (simp add: ex1_def R0_refs)
  from p have h0: "prev = H0" by (simp add: R0_refs)
  from n have tip: "refs ?R ''main'' = Some second" by (simp add: state_after_merge_sel R0_refs)
  from c have "commits ?R = [first, second]" by (simp add: R0_def)
  with ps u1 h0 tip R0_merge show ?thesis by blast
qed

text \<open>
  Claim C7. When the builder has processed a group, the files of the import commit's tree
  are exactly the destination paths of the group, each with the upstream blob the group
  brings there: the index it is committed from starts from the empty tree of the commit
  \<^verbatim>\<open>EMPTY_COMMIT_SHA\<close> names, not from the upstream commit's tree.
\<close>

theorem import_commit_only_group_files:
  assumes "merge_files_and_create_commit tool entry_set repo = (Inr (), repo')"
    and "empty_commit_ok repo"
  shows "\<exists>upstream first second.
      refs repo (git_ref (hd entry_set)) = Some upstream
    \<and> commits repo' = commits repo @ [first, second]
    \<and> dom (c_tree first) = dst_path ` set entry_set
    \<and> c_tree first = imported_tree (c_tree upstream) entry_set
    \<and> (distinct (map dst_path entry_set) \<longrightarrow>
          (\<forall>e\<in>set entry_set. c_tree first (dst_path e) = c_tree upstream (src_path e)))"
proof -
  from merge_result [OF assms(1)] obtain upstream ec prev where
    h: "refs repo (git_ref (hd entry_set)) = Some upstream"
       "refs repo EMPTY_COMMIT_SHA = Some ec"
       "\<forall>e\<in>set entry_set. c_tree upstream (src_path e) \<noteq> None"
    and r: "repo' = state_after_merge tool entry_set upstream ec prev repo"
    by blast
  let ?first = "import_commit tool entry_set upstream (c_tree ec)"
  let ?second = "merged_commit tool entry_set prev ?first"
  from assms(2) h(2) have ec: "c_tree ec = Map.empty" by (simp add: empty_commit_ok_def)
  have t: "c_tree ?first = imported_tree (c_tree upstream) entry_set"
    by (simp add: commit_sel ec)
  have c: "commits repo' = commits repo @ [?first, ?second]"
    by (simp add: r state_after_merge_sel)
  have d: "dom (c_tree ?first) = dst_path ` set entry_set"
    by (simp add: t dom_imported_tree [OF h(3)])
  have e: "distinct (map dst_path entry_set) \<longrightarrow>
          (\<forall>e\<in>set entry_set. c_tree ?first (dst_path e) = c_tree upstream (src_path e))"
    by (simp add: t imported_tree_distinct)
  from h(1) c d t e show ?thesis by blast
qed

theorem import_commit_only_group_files_witness:
  "merge_files_and_create_commit ''T'' [ex1, ex3] R0 =
     (Inr (), state_after_merge ''T'' [ex1, ex3] U1 E0 H0 R0)
   \<and> empty_commit_ok R0
   \<and> (\<exists>first second.
         commits (state_after_merge ''T'' [ex1, ex3] U1 E0 H0 R0) = [first, second]
       \<and> dom (c_tree first) = {''x'', ''z''}
       \<and> c_tree first ''x'' = Some ''A1'' \<and> c_tree first ''z'' = Some ''C1'')"
proof -
  let ?R = "state_after_merge ''T'' [ex1, ex3] U1 E0 H0 R0"
  from import_commit_only_group_files [OF R0_merge R0_empty_commit_ok]
  obtain upstream first second where
    u: "refs R0 (git_ref (hd [ex1, ex3])) = Some upstream"
    and c: "commits ?R = commits R0 @ [first, second]"
    and d: "dom (c_tree first) = dst_path ` set [ex1, ex3]"
    and t: "c_tree first = imported_tree (c_tree upstream) [ex1, ex3]"
    by blast
  from u have u1: "upstream = U1" by (simp add: ex1_def R0_refs)
  from c have c': "commits ?R = [first, second]" by (simp add: R0_def)
  from d have d': "dom (c_tree first) = {''x'', ''z''}" by (simp add: ex1_def ex3_def)
  have "c_tree first ''x'' = Some ''A1''" "c_tree first ''z'' = Some ''C1''"
    by (simp_all add: t u1 imported_tree_def ex1_def ex3_def U1_def)
  with c' d' R0_merge R0_empty_commit_ok show ?thesis by blast
qed

text \<open>
  Claim C10. When \<^verbatim>\<open>EMPTY_COMMIT_SHA\<close> resolves to a commit with an empty tree, building
  the fresh index succeeds and the index is empty. When it does not resolve, the builder
  raises and leaves the repository as it found it: no commit is written and the branch
  does not move.
\<close>

theorem empty_commit_presupposition:
  "(refs repo EMPTY_COMMIT_SHA = Some ec \<and> c_tree ec = Map.empty
      \<longrightarrow> fresh_index repo = Inr Map.empty)
   \<and> (refs repo EMPTY_COMMIT_SHA = None
      \<longrightarrow> (\<exists>err. merge_files_and_create_commit tool entry_set repo = (Inl err, repo)))"
proof (intro conjI impI)
  assume "refs repo EMPTY_COMMIT_SHA = Some ec \<and> c_tree ec = Map.empty"
  then show "fresh_index repo = Inr Map.empty"
    by (simp add: fresh_index_def repo_commit_def index_from_tree_def)
next
  assume "refs repo EMPTY_COMMIT_SHA = None"
  then show "\<exists>err. merge_files_and_create_commit tool entry_set repo = (Inl err, repo)"
    by (auto simp: merge_files_and_create_commit_def fresh_index_def repo_commit_def
        split: list.splits option.splits)
qed

theorem empty_commit_presupposition_witness:
  "refs R0 EMPTY_COMMIT_SHA = Some E0 \<and> c_tree E0 = Map.empty
   \<and> fresh_index R0 = Inr Map.empty
   \<and> refs R_no_empty EMPTY_COMMIT_SHA = None
   \<and> merge_files_and_create_commit ''T'' [ex1, ex3] R_no_empty
       = (Inl (BadName EMPTY_COMMIT_SHA), R_no_empty)
   \<and> commits R_no_empty = []"
proof -
  have a: "refs R0 EMPTY_COMMIT_SHA = Some E0 \<and> c_tree E0 = Map.empty"
    by (simp add: R0_refs E0_def)
  have b: "refs R_no_empty EMPTY_COMMIT_SHA = None"
    by (simp add: R_no_empty_def EMPTY_COMMIT_SHA_def)
  from empty_commit_presupposition [of R0 E0 "''T''" "[ex1, ex3]"] a
  have c: "fresh_index R0 = Inr Map.empty" by blast
  from empty_commit_presupposition [of R_no_empty E0 "''T''" "[ex1, ex3]"] b
  obtain err where e: "merge_files_and_create_commit ''T'' [ex1, ex3] R_no_empty = (Inl err, R_no_empty)"
    by blast
  have "fst (merge_files_and_create_commit ''T'' [ex1, ex3] R_no_empty) = Inl (BadName EMPTY_COMMIT_SHA)"
    using b by (simp add: merge_files_and_create_commit_def fresh_index_def repo_commit_def
        R_no_empty_def ex1_def)
  with e have "merge_files_and_create_commit ''T'' [ex1, ex3] R_no_empty
       = (Inl (BadName EMPTY_COMMIT_SHA), R_no_empty)" by simp
  moreover have "commits R_no_empty = []" by (simp add: R_no_empty_def R0_def)
  ultimately show ?thesis using a b c by blast
qed

section \<open>The commit messages\<close>

lemma R0_merge_zx:
  "merge_files_and_create_commit ''T'' [ex3, ex1] R0 =
     (Inr (), state_after_merge ''T'' [ex3, ex1] U1 E0 H0 R0)"
  by (rule merge_ok) (simp_all add: R0_refs ex1_def ex3_def U1_def)

lemma R0_merge_single:
  "merge_files_and_create_commit ''T'' [ex5] R0 =
     (Inr (), state_after_merge ''T'' [ex5] U1 E0 H0 R0)"
  by (rule merge_ok) (simp_all add: R0_refs ex5_def U1_def)

text \<open>
  Claim C8 as stated fails: the destination paths are listed in the order of the group,
  which the script never sorts. For the group of the destinations \<^verbatim>\<open>z\<close> and \<^verbatim>\<open>x\<close>, in
  this order, both messages list \<^verbatim>\<open>z\<close> before \<^verbatim>\<open>x\<close>.
\<close>

theorem commit_message_paths_not_sorted:
  "fst (merge_files_and_create_commit ''T'' [ex3, ex1] R0) = Inr ()
   \<and> map c_message (commits (snd (merge_files_and_create_commit ''T'' [ex3, ex1] R0))) =
       [''Import files from r1\<newline>\<newline>List of files:\<newline>  z\<newline>  x\<newline>\<newline>Generated by T\<newline>Test: N/A'',
        ''Merge files from r1 into the  expected_upstream branch\<newline>\<newline>List of files:\<newline>  z\<newline>  x\<newline>\<newline>Generated by T\<newline>Test: N/A'']
   \<and> sort (map dst_path [ex3, ex1]) = [''x'', ''z'']
   \<and> str_dst_paths [ex3, ex1] \<noteq> sorted_listing [ex3, ex1]"
proof -
  have "map c_message (commits (state_after_merge ''T'' [ex3, ex1] U1 E0 H0 R0)) =
       [''Import files from r1\<newline>\<newline>List of files:\<newline>  z\<newline>  x\<newline>\<newline>Generated by T\<newline>Test: N/A'',
        ''Merge files from r1 into the  expected_upstream branch\<newline>\<newline>List of files:\<newline>  z\<newline>  x\<newline>\<newline>Generated by T\<newline>Test: N/A'']"
    by (simp add: state_after_merge_sel import_commit_def merged_commit_def
        MSG_FIRST_COMMIT_def MSG_SECOND_COMMIT_def summary_msg_def str_dst_paths_def
        ex1_def ex3_def)
      (simp add: R0_def)
  moreover have "sort (map dst_path [ex3, ex1]) = [''x'', ''z'']"
    by (simp add: ex1_def ex3_def)
  moreover have "str_dst_paths [ex3, ex1] \<noteq> sorted_listing [ex3, ex1]"
    by (simp add: str_dst_paths_def sorted_listing_def ex1_def ex3_def)
  ultimately show ?thesis by (simp add: R0_merge_zx)
qed

text \<open>
  Claim C8, amended. When the builder has processed a group, the message of the import
  commit and the message of the merge commit each hold, in this order: a summary line
  with the stem of the destination's file name (the name without its last suffix) when
  the group has exactly one entry and the word \<^verbatim>\<open>files\<close> otherwise, followed by the ref
  of the group's first entry; the line \<^verbatim>\<open>List of files:\<close> and the destination paths in
  the order of the group, one to a line; the line naming the generating tool; and the
  line \<^verbatim>\<open>Test: N/A\<close>.
\<close>

theorem commit_messages:
  assumes "merge_files_and_create_commit tool entry_set repo = (Inr (), repo')"
  shows "\<exists>first second.
      commits repo' = commits repo @ [first, second]
    \<and> c_message first =
        ''Import ''
        @ (if length entry_set = 1 then path_stem (dst_path (hd entry_set)) else ''files'')
        @ '' from '' @ git_ref (hd entry_set)
        @ ''\<newline>\<newline>List of files:\<newline>  ''
        @ str_join ''\<newline>  '' (map dst_path entry_set)
        @ ''\<newline>\<newline>Generated by '' @ tool @ ''\<newline>Test: N/A''
    \<and> c_message second =
        ''Merge ''
        @ (if length entry_set = 1 then path_stem (dst_path (hd entry_set)) else ''files'')
        @ '' from '' @ git_ref (hd entry_set) @ '' into the  expected_upstream branch''
        @ ''\<newline>\<newline>List of files:\<newline>  ''
        @ str_join ''\<newline>  '' (map dst_path entry_set)
        @ ''\<newline>\<newline>Generated by '' @ tool @ ''\<newline>Test: N/A''"
proof -
  from merge_result [OF assms] obtain upstream ec prev where
    r: "repo' = state_after_merge tool entry_set upstream ec prev repo"
    by blast
  let ?first = "import_commit tool entry_set upstream (c_tree ec)"
  let ?second = "merged_commit tool entry_set prev ?first"
  have "commits repo' = commits repo @ [?first, ?second]"
    by (simp add: r state_after_merge_sel)
  moreover have "c_message ?first =
        ''Import ''
        @ (if length entry_set = 1 then path_stem (dst_path (hd entry_set)) else ''files'')
        @ '' from '' @ git_ref (hd entry_set)
        @ ''\<newline>\<newline>List of files:\<newline>  ''
        @ str_join ''\<newline>  '' (map dst_path entry_set)
        @ ''\<newline>\<newline>Generated by '' @ tool @ ''\<newline>Test: N/A''"
    by (simp add: import_commit_def MSG_FIRST_COMMIT_def summary_msg_def str_dst_paths_def)
  moreover have "c_message ?second =
        ''Merge ''
        @ (if length entry_set = 1 then path_stem (dst_path (hd entry_set)) else ''files'')
        @ '' from '' @ git_ref (hd entry_set) @ '' into the  expected_upstream branch''
        @ ''\<newline>\<newline>List of files:\<newline>  ''
        @ str_join ''\<newline>  '' (map dst_path entry_set)
        @ ''\<newline>\<newline>Generated by '' @ tool @ ''\<newline>Test: N/A''"
    by (simp add: merged_commit_def MSG_SECOND_COMMIT_def summary_msg_def str_dst_paths_def)
  ultimately show ?thesis by blast
qed

theorem commit_messages_witness:
  "merge_files_and_create_commit ''T'' [ex5] R0 =
     (Inr (), state_after_merge ''T'' [ex5] U1 E0 H0 R0)
   \<and> (\<exists>first second.
        commits (state_after_merge ''T'' [ex5] U1 E0 H0 R0) = [first, second]
      \<and> c_message first =
          ''Import String from r1\<newline>\<newline>List of files:\<newline>  lib/String.java\<newline>\<newline>Generated by T\<newline>Test: N/A''
      \<and> c_message second =
          ''Merge String from r1 into the  expected_upstream branch\<newline>\<newline>List of files:\<newline>  lib/String.java\<newline>\<newline>Generated by T\<newline>Test: N/A'')"
proof -
  from commit_messages [OF R0_merge_single]
  obtain first second where
    c: "commits (state_after_merge ''T'' [ex5] U1 E0 H0 R0) = commits R0 @ [first, second]"
    and m1: "c_message first =
        ''Import ''
        @ (if length [ex5] = 1 then path_stem (dst_path (hd [ex5])) else ''files'')
        @ '' from '' @ git_ref (hd [ex5])
        @ ''\<newline>\<newline>List of files:\<newline>  ''
        @ str_join ''\<newline>  '' (map dst_path [ex5])
        @ ''\<newline>\<newline>Generated by '' @ ''T'' @ ''\<newline>Test: N/A''"
    and m2: "c_message second =
        ''Merge ''
        @ (if length [ex5] = 1 then path_stem (dst_path (hd [ex5])) else ''files'')
        @ '' from '' @ git_ref (hd [ex5]) @ '' into the  expected_upstream branch''
        @ ''\<newline>\<newline>List of files:\<newline>  ''
        @ str_join ''\<newline>  '' (map dst_path [ex5])
        @ ''\<newline>\<newline>Generated by '' @ ''T'' @ ''\<newline>Test: N/A''"
    by blast
  have stem: "path_stem (dst_path ex5) = ''String''"
    by (simp add: ex5_def path_stem_def path_name_def)
  from c have c': "commits (state_after_merge ''T'' [ex5] U1 E0 H0 R0) = [first, second]"
    by (simp add: R0_def)
  from m1 have m1': "c_message first =
          ''Import String from r1\<newline>\<newline>List of files:\<newline>  lib/String.java\<newline>\<newline>Generated by T\<newline>Test: N/A''"
    by (simp add: stem) (simp add: ex5_def)
  from m2 have m2': "c_message second =
          ''Merge String from r1 into the  expected_upstream branch\<newline>\<newline>List of files:\<newline>  lib/String.java\<newline>\<newline>Generated by T\<newline>Test: N/A''"
    by (simp add: stem) (simp add: ex5_def)
  from c' m1' m2' R0_merge_single show ?thesis by blast
qed

section \<open>Properties of the orchestrator\<close>

lemma announced_sel:
  "refs (announced name repo) = refs repo"
  "active_branch (announced name repo) = active_branch repo"
  "tracking_branch (announced name repo) = tracking_branch repo"
  "commits (announced name repo) = commits repo"
  "working_tree (announced name repo) = working_tree repo"
  "index (announced name repo) = index repo"
  "stderr (announced name repo) = stderr repo"
  by (simp_all add: announced_def)

lemma announced_source_blob: "source_blob (announced name repo) e = source_blob repo e"
  by (rule source_blob_cong) (simp add: announced_sel)

lemma announced_entry_error: "entry_error (announced name repo) e = entry_error repo e"
  by (rule entry_error_cong) (simp add: announced_sel)

lemma announced_needs_update: "needs_update (announced name repo) t e = needs_update repo t e"
  by (rule needs_update_cong) (simp add: announced_sel)

lemma create_commits_unfold:
  assumes "tracking_branch repo = Some name"
  shows "create_commits tool entries repo =
     (case validate_and_remove_updated_entries entries (announced name repo) of
        (Inl err, repo3) \<Rightarrow> (Inl err, repo3)
      | (Inr outdated_entries, repo3) \<Rightarrow>
          if outdated_entries = []
          then (Inr (), repo3\<lparr>stdout := stdout repo3 @ [NoNeedToUpdate]\<rparr>)
          else merge_all tool (partition_entries_by_ref outdated_entries)
                 (repo3\<lparr>stdout := stdout repo3 @ [WillBeUpdated]
                            @ map (\<lambda>e. DstPathLine (dst_path e)) outdated_entries\<rparr>))"
proof -
  have "(if name \<noteq> ''aosp/expected_upstream''
         then repo\<lparr>stdout := stdout repo @ [BranchWarning (active_branch repo) name]\<rparr>
         else repo)\<lparr>stdout := stdout (if name \<noteq> ''aosp/expected_upstream''
         then repo\<lparr>stdout := stdout repo @ [BranchWarning (active_branch repo) name]\<rparr>
         else repo) @ [ReadingExpectedUpstream]\<rparr> = announced name repo"
    by (simp add: announced_def)
  then show ?thesis
    using assms by (simp add: create_commits_def Let_def split: prod.splits sum.splits)
qed

lemma create_commits_no_tracking:
  "tracking_branch repo = None \<Longrightarrow> create_commits tool entries repo = (Inl AttributeError, repo)"
  by (simp add: create_commits_def)

lemma create_commits_no_tip:
  assumes "tracking_branch repo = Some name" and "refs repo (active_branch repo) = None"
  shows "create_commits tool entries repo = (Inl ValueError, announced name repo)"
  using assms
  by (simp add: create_commits_unfold validate_no_tip announced_sel)

lemma create_commits_fail:
  assumes "tracking_branch repo = Some name" and "refs repo (active_branch repo) = Some tip"
    and "List.find (\<lambda>e. source_blob repo e = None) entries = Some bad"
  shows "create_commits tool entries repo =
     (Inl (entry_error repo bad),
      (announced name repo)\<lparr>stderr := stderr repo @ [ErrorReadingEntry bad]\<rparr>)"
proof -
  have "validate_and_remove_updated_entries entries (announced name repo) =
     (Inl (entry_error (announced name repo) bad),
      (announced name repo)\<lparr>stderr := stderr (announced name repo) @ [ErrorReadingEntry bad]\<rparr>)"
    by (rule validate_fail [where tip = tip])
      (simp_all add: announced_sel announced_source_blob assms)
  then show ?thesis
    by (simp add: create_commits_unfold [OF assms(1)] announced_sel announced_entry_error)
qed

lemma create_commits_ok:
  assumes "tracking_branch repo = Some name" and "refs repo (active_branch repo) = Some tip"
    and "\<forall>e\<in>set entries. source_blob repo e \<noteq> None"
  shows "create_commits tool entries repo =
     (if filter (needs_update repo (c_tree tip)) entries = []
      then (Inr (), (announced name repo)\<lparr>stdout :=
              stdout (announced name repo) @ [NoNeedToUpdate]\<rparr>)
      else merge_all tool
             (partition_entries_by_ref (filter (needs_update repo (c_tree tip)) entries))
             ((announced name repo)\<lparr>stdout := stdout (announced name repo) @ [WillBeUpdated]
                 @ map (\<lambda>e. DstPathLine (dst_path e))
                     (filter (needs_update repo (c_tree tip)) entries)\<rparr>))"
proof -
  have "validate_and_remove_updated_entries entries (announced name repo) =
     (Inr (filter (needs_update (announced name repo) (c_tree tip)) entries), announced name repo)"
    by (rule validate_ok) (simp_all add: announced_sel announced_source_blob assms)
  then have "validate_and_remove_updated_entries entries (announced name repo) =
     (Inr (filter (needs_update repo (c_tree tip)) entries), announced name repo)"
    by (simp add: announced_needs_update [abs_def])
  then show ?thesis
    by (simp add: create_commits_unfold [OF assms(1)])
qed



text \<open>
  On a branch that tracks a name other than the expected one, the warning is printed and
  the run goes on: by \<open>create_commits_unfold\<close> its result is that of the filter and the
  builder on the state \<open>announced name repo\<close>, whose output starts with the warning.
\<close>

lemma announced_warns:
  "name \<noteq> ''aosp/expected_upstream'' \<Longrightarrow>
     stdout (announced name repo) =
       stdout repo @ [BranchWarning (active_branch repo) name, ReadingExpectedUpstream]"
  by (simp add: announced_def)

text \<open>
  Claim C9, at a branch that tracks nothing: \<^verbatim>\<open>tracking_branch()\<close> returns \<^verbatim>\<open>None\<close>, reading
  its \<^verbatim>\<open>name\<close> raises, and the run ends there, with no warning printed and no entry read.
\<close>

theorem create_commits_without_tracking_branch:
  "create_commits ''T'' [ex1, ex2] (R0\<lparr>tracking_branch := None\<rparr>)
     = (Inl AttributeError, R0\<lparr>tracking_branch := None\<rparr>)"
  by (simp add: create_commits_no_tracking)

section \<open>Running the tool twice\<close>

lemma tip_tree_cong:
  "refs r1 = refs r2 \<Longrightarrow> active_branch r1 = active_branch r2 \<Longrightarrow> tip_tree r1 = tip_tree r2"
  by (simp add: tip_tree_def)

lemma empty_commit_ok_cong: "refs r1 EMPTY_COMMIT_SHA = refs r2 EMPTY_COMMIT_SHA \<Longrightarrow>
    empty_commit_ok r1 = empty_commit_ok r2"
  by (simp add: empty_commit_ok_def)

lemma source_blob_ref_cong:
  "refs r1 (git_ref e) = refs r2 (git_ref e) \<Longrightarrow> source_blob r1 e = source_blob r2 e"
  by (simp add: source_blob_def)

lemma merge_step:
  assumes m: "merge_files_and_create_commit tool g repo = (Inr u, repo1)"
    and ok: "empty_commit_ok repo"
    and same: "\<forall>e\<in>set g. git_ref e = git_ref (hd g)"
    and dist: "distinct (map dst_path g)"
  shows "active_branch repo1 = active_branch repo"
    and "tracking_branch repo1 = tracking_branch repo"
    and "\<forall>n. n \<noteq> active_branch repo \<longrightarrow> refs repo1 n = refs repo n"
    and "refs repo1 (active_branch repo) \<noteq> None"
    and "\<forall>e\<in>set g. source_blob repo e \<noteq> None \<and> tip_tree repo1 (dst_path e) = source_blob repo e"
    and "\<forall>p. p \<notin> dst_path ` set g \<longrightarrow> tip_tree repo1 p = tip_tree repo p"
proof -
  from merge_result [OF m] obtain upstream ec prev where
    h: "refs repo (git_ref (hd g)) = Some upstream"
       "refs repo EMPTY_COMMIT_SHA = Some ec"
       "\<forall>e\<in>set g. c_tree upstream (src_path e) \<noteq> None"
       "refs repo (active_branch repo) = Some prev"
    and r: "repo1 = state_after_merge tool g upstream ec prev repo"
    by blast
  from ok h(2) have ec: "c_tree ec = Map.empty" by (simp add: empty_commit_ok_def)
  show "active_branch repo1 = active_branch repo" "tracking_branch repo1 = tracking_branch repo"
    "\<forall>n. n \<noteq> active_branch repo \<longrightarrow> refs repo1 n = refs repo n"
    "refs repo1 (active_branch repo) \<noteq> None"
    by (simp_all add: r state_after_merge_sel)
  have tip1: "tip_tree repo1 = c_tree prev ++ imported_tree (c_tree upstream) g"
    by (simp add: tip_tree_def r state_after_merge_sel commit_sel ec)
  have tip0: "tip_tree repo = c_tree prev"
    by (simp add: tip_tree_def h(4))
  show "\<forall>e\<in>set g. source_blob repo e \<noteq> None \<and> tip_tree repo1 (dst_path e) = source_blob repo e"
  proof
    fix e assume e: "e \<in> set g"
    with same h(1) have sb: "source_blob repo e = c_tree upstream (src_path e)"
      by (simp add: source_blob_def)
    from e h(3) obtain b where b: "c_tree upstream (src_path e) = Some b" by auto
    from imported_tree_distinct [OF dist e] b
    have "imported_tree (c_tree upstream) g (dst_path e) = Some b" by simp
    then have "tip_tree repo1 (dst_path e) = Some b" by (simp add: tip1 map_add_def)
    with sb b show "source_blob repo e \<noteq> None \<and> tip_tree repo1 (dst_path e) = source_blob repo e"
      by simp
  qed
  show "\<forall>p. p \<notin> dst_path ` set g \<longrightarrow> tip_tree repo1 p = tip_tree repo p"
  proof (intro allI impI)
    fix p assume "p \<notin> dst_path ` set g"
    then have "imported_tree (c_tree upstream) g p = None"
      using imported_tree_None [OF h(3)] by simp
    then show "tip_tree repo1 p = tip_tree repo p" by (simp add: tip1 tip0 map_add_def)
  qed
qed

lemma merge_all_result:
  assumes "merge_all tool groups repo = (Inr u, repo')"
    and "empty_commit_ok repo" and "active_branch repo \<noteq> EMPTY_COMMIT_SHA"
    and "\<forall>e\<in>set (concat groups). git_ref e \<noteq> active_branch repo"
    and "\<forall>g\<in>set groups. \<forall>e\<in>set g. git_ref e = git_ref (hd g)"
    and "distinct (map dst_path (concat groups))"
  shows "active_branch repo' = active_branch repo
    \<and> tracking_branch repo' = tracking_branch repo
    \<and> (\<forall>n. n \<noteq> active_branch repo \<longrightarrow> refs repo' n = refs repo n)
    \<and> (groups \<noteq> [] \<longrightarrow> refs repo' (active_branch repo) \<noteq> None)
    \<and> (\<forall>e\<in>set (concat groups).
          source_blob repo e \<noteq> None \<and> tip_tree repo' (dst_path e) = source_blob repo e)
    \<and> (\<forall>p. p \<notin> dst_path ` set (concat groups) \<longrightarrow> tip_tree repo' p = tip_tree repo p)"
  using assms
proof (induction groups arbitrary: repo)
  case Nil
  then show ?case by simp
next
  case (Cons g gs)
  from Cons.prems(1) obtain v repo1 where
    m: "merge_files_and_create_commit tool g repo = (Inr v, repo1)"
    and rest: "merge_all tool gs repo1 = (Inr u, repo')"
    by (auto split: prod.splits sum.splits)
  have same: "\<forall>e\<in>set g. git_ref e = git_ref (hd g)" using Cons.prems(5) by simp
  have dist: "distinct (map dst_path g)" "distinct (map dst_path (concat gs))"
    and disj: "dst_path ` set g \<inter> dst_path ` set (concat gs) = {}"
    using Cons.prems(6) by auto
  note s = merge_step [OF m Cons.prems(2) same dist(1)]
  have refs1: "\<forall>n. n \<noteq> active_branch repo \<longrightarrow> refs repo1 n = refs repo n" by (rule s(3))
  have ok1: "empty_commit_ok repo1"
  proof -
    from Cons.prems(3) refs1 have "refs repo1 EMPTY_COMMIT_SHA = refs repo EMPTY_COMMIT_SHA"
      by metis
    with Cons.prems(2) show ?thesis by (simp add: empty_commit_ok_def)
  qed
  have br1: "active_branch repo1 \<noteq> EMPTY_COMMIT_SHA" using Cons.prems(3) s(1) by simp
  have nb1: "\<forall>e\<in>set (concat gs). git_ref e \<noteq> active_branch repo1"
    using Cons.prems(4) s(1) by simp
  have same1: "\<forall>g\<in>set gs. \<forall>e\<in>set g. git_ref e = git_ref (hd g)"
    using Cons.prems(5) by simp
  note ih = Cons.IH [OF rest ok1 br1 nb1 same1 dist(2)]
  have src: "\<forall>e\<in>set (concat gs). source_blob repo1 e = source_blob repo e"
  proof
    fix e assume "e \<in> set (concat gs)"
    with Cons.prems(4) have "git_ref e \<noteq> active_branch repo" by simp
    with refs1 have "refs repo1 (git_ref e) = refs repo (git_ref e)" by blast
    then show "source_blob repo1 e = source_blob repo e"
      by (rule source_blob_ref_cong)
  qed
  have a: "active_branch repo' = active_branch repo" using ih s(1) by simp
  have b: "tracking_branch repo' = tracking_branch repo" using ih s(2) by simp
  have c: "\<forall>n. n \<noteq> active_branch repo \<longrightarrow> refs repo' n = refs repo n"
    using ih s(1) refs1 by simp
  have d: "refs repo' (active_branch repo) \<noteq> None"
  proof (cases gs)
    case Nil
    with rest have "repo' = repo1" by simp
    with s(4) show ?thesis by simp
  next
    case (Cons a list)
    with ih s(1) show ?thesis by simp
  qed
  have e: "\<forall>e\<in>set (concat (g # gs)).
          source_blob repo e \<noteq> None \<and> tip_tree repo' (dst_path e) = source_blob repo e"
  proof
    fix e assume "e \<in> set (concat (g # gs))"
    then consider (here) "e \<in> set g" | (later) "e \<in> set (concat gs)" by auto
    then show "source_blob repo e \<noteq> None \<and> tip_tree repo' (dst_path e) = source_blob repo e"
    proof cases
      case here
      then have "dst_path e \<notin> dst_path ` set (concat gs)" using disj by blast
      with ih have "tip_tree repo' (dst_path e) = tip_tree repo1 (dst_path e)" by blast
      with s(5) here show ?thesis by simp
    next
      case later
      with ih have "source_blob repo1 e \<noteq> None
          \<and> tip_tree repo' (dst_path e) = source_blob repo1 e" by blast
      moreover from src later have "source_blob repo1 e = source_blob repo e" by blast
      ultimately show ?thesis by simp
    qed
  qed
  have f: "\<forall>p. p \<notin> dst_path ` set (concat (g # gs)) \<longrightarrow> tip_tree repo' p = tip_tree repo p"
  proof (intro allI impI)
    fix p assume p: "p \<notin> dst_path ` set (concat (g # gs))"
    then have "p \<notin> dst_path ` set g" "p \<notin> dst_path ` set (concat gs)" by auto
    with ih s(6) show "tip_tree repo' p = tip_tree repo p" by simp
  qed
  from a b c d e f show ?case by simp
qed

lemma first_run_facts:
  assumes run1: "create_commits tool entries repo = (Inr u, repo1)"
    and dist: "distinct (map dst_path entries)"
    and fixed: "\<forall>e\<in>set entries. git_ref e \<noteq> active_branch repo"
    and ok: "empty_commit_ok repo"
    and br: "active_branch repo \<noteq> EMPTY_COMMIT_SHA"
  shows "active_branch repo1 = active_branch repo"
    and "tracking_branch repo1 = tracking_branch repo"
    and "tracking_branch repo \<noteq> None"
    and "\<forall>n. n \<noteq> active_branch repo \<longrightarrow> refs repo1 n = refs repo n"
    and "refs repo1 (active_branch repo) \<noteq> None"
    and "\<forall>e\<in>set entries.
           source_blob repo e \<noteq> None \<and> tip_tree repo1 (dst_path e) = source_blob repo e"
proof -
  from run1 obtain name where name: "tracking_branch repo = Some name"
    by (cases "tracking_branch repo") (simp_all add: create_commits_no_tracking)
  from run1 name obtain tip where tip: "refs repo (active_branch repo) = Some tip"
    by (cases "refs repo (active_branch repo)") (simp_all add: create_commits_no_tip)
  have srcs: "\<forall>e\<in>set entries. source_blob repo e \<noteq> None"
  proof (rule ccontr)
    assume "\<not> (\<forall>e\<in>set entries. source_blob repo e \<noteq> None)"
    then obtain bad where "List.find (\<lambda>e. source_blob repo e = None) entries = Some bad"
      using find_unreadable by blast
    from create_commits_fail [OF name tip this, of tool] run1 show False by simp
  qed
  let ?outdated = "filter (needs_update repo (c_tree tip)) entries"
  let ?groups = "partition_entries_by_ref ?outdated"
  note cc = create_commits_ok [OF name tip srcs, of tool]
  have tt: "tip_tree repo = c_tree tip" by (simp add: tip_tree_def tip)
  have fresh: "\<forall>e\<in>set entries. \<not> needs_update repo (c_tree tip) e \<longrightarrow>
      tip_tree repo (dst_path e) = source_blob repo e"
    using srcs by (auto simp: needs_update_def tt)
  show "tracking_branch repo \<noteq> None" by (simp add: name)
  show "active_branch repo1 = active_branch repo"
    and "tracking_branch repo1 = tracking_branch repo"
    and "\<forall>n. n \<noteq> active_branch repo \<longrightarrow> refs repo1 n = refs repo n"
    and "refs repo1 (active_branch repo) \<noteq> None"
    and "\<forall>e\<in>set entries.
           source_blob repo e \<noteq> None \<and> tip_tree repo1 (dst_path e) = source_blob repo e"
  proof -
    let ?goal = "active_branch repo1 = active_branch repo
      \<and> tracking_branch repo1 = tracking_branch repo
      \<and> (\<forall>n. n \<noteq> active_branch repo \<longrightarrow> refs repo1 n = refs repo n)
      \<and> refs repo1 (active_branch repo) \<noteq> None
      \<and> (\<forall>e\<in>set entries.
           source_blob repo e \<noteq> None \<and> tip_tree repo1 (dst_path e) = source_blob repo e)"
    have ?goal
    proof (cases "?outdated = []")
      case True
      with cc run1 have r1: "repo1 = (announced name repo)\<lparr>stdout :=
              stdout (announced name repo) @ [NoNeedToUpdate]\<rparr>"
        by simp
      have sel: "refs repo1 = refs repo" "active_branch repo1 = active_branch repo"
        "tracking_branch repo1 = tracking_branch repo"
        by (simp_all add: r1 announced_sel)
      have t1: "tip_tree repo1 = tip_tree repo"
        by (rule tip_tree_cong) (simp_all add: sel)
      from True have "\<forall>e\<in>set entries. \<not> needs_update repo (c_tree tip) e"
        by (simp add: filter_empty_conv)
      with fresh srcs have "\<forall>e\<in>set entries.
           source_blob repo e \<noteq> None \<and> tip_tree repo1 (dst_path e) = source_blob repo e"
        by (simp add: t1)
      with sel tip show ?thesis by simp
    next
      case False
      let ?r4 = "(announced name repo)\<lparr>stdout := stdout (announced name repo) @ [WillBeUpdated]
                 @ map (\<lambda>e. DstPathLine (dst_path e)) ?outdated\<rparr>"
      from False cc run1 have ma: "merge_all tool ?groups ?r4 = (Inr u, repo1)" by simp
      have ok4: "empty_commit_ok ?r4"
        using ok by (simp add: empty_commit_ok_def announced_sel)
      have br4: "active_branch ?r4 \<noteq> EMPTY_COMMIT_SHA" using br by (simp add: announced_sel)
      have ms: "mset (concat ?groups) = mset ?outdated" by (rule mset_concat_partition)
      then have st: "set (concat ?groups) = set ?outdated" by (rule mset_eq_setD)
      have nb4: "\<forall>e\<in>set (concat ?groups). git_ref e \<noteq> active_branch ?r4"
        unfolding st using fixed by (simp add: announced_sel)
      have same4: "\<forall>g\<in>set ?groups. \<forall>e\<in>set g. git_ref e = git_ref (hd g)"
        using partition_group_props(2) by blast
      have "distinct (map dst_path ?outdated)" using dist by (rule distinct_map_filter)
      moreover from ms have "mset (map dst_path (concat ?groups)) = mset (map dst_path ?outdated)"
        by (metis mset_map)
      ultimately have dist4: "distinct (map dst_path (concat ?groups))"
        by (metis mset_eq_imp_distinct_iff)
      note res = merge_all_result [OF ma ok4 br4 nb4 same4 dist4]
      have t4: "tip_tree ?r4 = tip_tree repo"
        by (rule tip_tree_cong) (simp_all add: announced_sel)
      have s4: "\<And>e. source_blob ?r4 e = source_blob repo e"
        by (rule source_blob_cong) (simp add: announced_sel)
      from False have ne: "?groups \<noteq> []"
        using st by (metis concat.simps(1) empty_set set_empty)
      have a: "active_branch repo1 = active_branch repo" using res by (simp add: announced_sel)
      have b: "tracking_branch repo1 = tracking_branch repo" using res by (simp add: announced_sel)
      have c: "\<forall>n. n \<noteq> active_branch repo \<longrightarrow> refs repo1 n = refs repo n"
        using res by (simp add: announced_sel)
      have d: "refs repo1 (active_branch repo) \<noteq> None" using res ne by (simp add: announced_sel)
      from res have inc: "\<forall>e\<in>set ?outdated.
          source_blob repo e \<noteq> None \<and> tip_tree repo1 (dst_path e) = source_blob repo e"
        unfolding st s4 by blast
      from res have frame: "\<forall>p. p \<notin> dst_path ` set ?outdated \<longrightarrow> tip_tree repo1 p = tip_tree repo p"
        unfolding st t4 by blast
      have e: "\<forall>e\<in>set entries.
           source_blob repo e \<noteq> None \<and> tip_tree repo1 (dst_path e) = source_blob repo e"
      proof
        fix e assume e: "e \<in> set entries"
        show "source_blob repo e \<noteq> None \<and> tip_tree repo1 (dst_path e) = source_blob repo e"
        proof (cases "needs_update repo (c_tree tip) e")
          case True
          with e have "e \<in> set ?outdated" by simp
          with inc show ?thesis by blast
        next
          case False
          have "dst_path e \<notin> dst_path ` set ?outdated"
          proof
            assume "dst_path e \<in> dst_path ` set ?outdated"
            then obtain o' where o: "o' \<in> set ?outdated" "dst_path o' = dst_path e" by auto
            then have "o' \<in> set entries" by simp
            with dist e o(2) have "o' = e"
              by (meson distinct_map inj_onD)
            with o(1) False show False by simp
          qed
          with frame have "tip_tree repo1 (dst_path e) = tip_tree repo (dst_path e)" by blast
          with fresh e False srcs show ?thesis by simp
        qed
      qed
      from a b c d e show ?thesis by blast
    qed
    then show "active_branch repo1 = active_branch repo"
      and "tracking_branch repo1 = tracking_branch repo"
      and "\<forall>n. n \<noteq> active_branch repo \<longrightarrow> refs repo1 n = refs repo n"
      and "refs repo1 (active_branch repo) \<noteq> None"
      and "\<forall>e\<in>set entries.
           source_blob repo e \<noteq> None \<and> tip_tree repo1 (dst_path e) = source_blob repo e"
      by blast+
  qed
qed


text \<open>
  Claim C5, amended. Let a first run complete on a manifest whose destination paths are
  pairwise distinct, with no upstream change: no entry names the working branch, the
  only ref the tool moves, and the commit \<^verbatim>\<open>EMPTY_COMMIT_SHA\<close> names has an empty tree
  and is not named by the branch. Then at the new tip every entry's destination holds
  the bytes of its upstream source blob, the filter of a second run returns the empty
  list, and the second run completes without writing a commit or moving a ref.
\<close>

theorem create_commits_second_run:
  assumes run1: "create_commits tool entries repo = (Inr (), repo1)"
    and dist: "distinct (map dst_path entries)"
    and fixed: "\<forall>e\<in>set entries. git_ref e \<noteq> active_branch repo"
    and ok: "empty_commit_ok repo"
    and br: "active_branch repo \<noteq> EMPTY_COMMIT_SHA"
  shows "(\<forall>e\<in>set entries.
            source_blob repo1 e \<noteq> None \<and> tip_tree repo1 (dst_path e) = source_blob repo1 e)
    \<and> validate_and_remove_updated_entries entries repo1 = (Inr [], repo1)
    \<and> (\<exists>repo2. create_commits tool entries repo1 = (Inr (), repo2)
          \<and> commits repo2 = commits repo1 \<and> refs repo2 = refs repo1)"
proof -
  note f = first_run_facts [OF run1 dist fixed ok br]
  from f(3) f(2) obtain name where name: "tracking_branch repo1 = Some name" by auto
  from f(5) f(1) obtain tip1 where tip1: "refs repo1 (active_branch repo1) = Some tip1" by auto
  have tt: "tip_tree repo1 = c_tree tip1" by (simp add: tip_tree_def tip1)
  have src: "\<forall>e\<in>set entries. source_blob repo1 e = source_blob repo e"
  proof
    fix e assume "e \<in> set entries"
    with fixed have "git_ref e \<noteq> active_branch repo" by blast
    with f(4) have "refs repo1 (git_ref e) = refs repo (git_ref e)" by blast
    then show "source_blob repo1 e = source_blob repo e" by (rule source_blob_ref_cong)
  qed
  have a: "\<forall>e\<in>set entries.
            source_blob repo1 e \<noteq> None \<and> tip_tree repo1 (dst_path e) = source_blob repo1 e"
    using f(6) src by simp
  then have srcs1: "\<forall>e\<in>set entries. source_blob repo1 e \<noteq> None" by blast
  have "\<forall>e\<in>set entries. \<not> needs_update repo1 (c_tree tip1) e"
    using a by (auto simp: needs_update_def tt)
  then have none: "filter (needs_update repo1 (c_tree tip1)) entries = []"
    by (simp add: filter_empty_conv)
  have b: "validate_and_remove_updated_entries entries repo1 = (Inr [], repo1)"
    using validate_ok [OF tip1 srcs1] none by simp
  have "create_commits tool entries repo1 =
      (Inr (), (announced name repo1)\<lparr>stdout :=
              stdout (announced name repo1) @ [NoNeedToUpdate]\<rparr>)"
    using create_commits_ok [OF name tip1 srcs1, of tool] none by simp
  then have c: "\<exists>repo2. create_commits tool entries repo1 = (Inr (), repo2)
          \<and> commits repo2 = commits repo1 \<and> refs repo2 = refs repo1"
    by (simp add: announced_sel)
  from a b c show ?thesis by blast
qed

lemma R0_sel:
  "tracking_branch R0 = Some ''aosp/expected_upstream''" "commits R0 = []"
  "stdout R0 = []" "stderr R0 = []"
  by (simp_all add: R0_def)

lemma merge_all_single:
  "merge_files_and_create_commit tool g repo = (Inr (), repo1) \<Longrightarrow>
     merge_all tool [g] repo = (Inr (), repo1)"
  by simp

lemma merge_all_pair:
  "merge_files_and_create_commit tool g repo = (Inr (), repo1) \<Longrightarrow>
   merge_files_and_create_commit tool h repo1 = (Inr (), repo2) \<Longrightarrow>
     merge_all tool [g, h] repo = (Inr (), repo2)"
  by simp

lemma R0_first_run:
  "create_commits ''T'' [ex1, ex2, ex4, ex3] R0 = (Inr (), R0_run)"
  "length (commits R0_run) = 4"
proof -
  let ?M = "[ex1, ex2, ex4, ex3]"
  let ?n = "''aosp/expected_upstream''"
  define R4 where "R4 = (announced ?n R0)\<lparr>stdout := stdout (announced ?n R0) @ [WillBeUpdated]
                 @ map (\<lambda>e. DstPathLine (dst_path e)) [ex1, ex2, ex3]\<rparr>"
  define M1 where
    "M1 = merged_commit ''T'' [ex1, ex3] H0 (import_commit ''T'' [ex1, ex3] U1 (c_tree E0))"
  define S1 where "S1 = state_after_merge ''T'' [ex1, ex3] U1 E0 H0 R4"
  define S2 where "S2 = state_after_merge ''T'' [ex2] U2 E0 M1 S1"
  have R4: "refs R4 = refs R0" "active_branch R4 = ''main''" "commits R4 = []"
    by (simp_all add: R4_def announced_sel R0_refs R0_sel)
  have tip: "refs R0 (active_branch R0) = Some H0" by (simp add: R0_refs)
  have srcs: "\<forall>e\<in>set ?M. source_blob R0 e \<noteq> None" by (simp add: R0_source_blob)
  have flt: "filter (needs_update R0 (c_tree H0)) ?M = [ex1, ex2, ex3]"
    by (simp add: R0_needs_update)
  have cc: "create_commits ''T'' ?M R0 = merge_all ''T'' [[ex1, ex3], [ex2]] R4"
    using create_commits_ok [OF R0_sel(1) tip srcs, of "''T''"]
    unfolding flt ex_partition R4_def by simp
  have m1: "merge_files_and_create_commit ''T'' [ex1, ex3] R4 = (Inr (), S1)"
    unfolding S1_def
    by (rule merge_ok) (simp_all add: R4 R0_refs ex1_def ex3_def U1_def)
  have S1: "refs S1 = (refs R0)(''main'' \<mapsto> M1)" "active_branch S1 = ''main''"
    "length (commits S1) = 2"
    by (simp_all add: S1_def M1_def state_after_merge_sel R4)
  have ne: "EMPTY_COMMIT_SHA \<noteq> ''main''" by (simp add: EMPTY_COMMIT_SHA_def)
  have m2: "merge_files_and_create_commit ''T'' [ex2] S1 = (Inr (), S2)"
    unfolding S2_def
    by (rule merge_ok) (simp_all add: S1 R0_refs ne ex2_def U2_def)
  from cc merge_all_pair [OF m1 m2] have run: "create_commits ''T'' ?M R0 = (Inr (), S2)"
    by simp
  then have eq: "R0_run = S2" by (simp add: R0_run_def)
  from run eq show "create_commits ''T'' ?M R0 = (Inr (), R0_run)" by simp
  show "length (commits R0_run) = 4"
    by (simp add: eq S2_def state_after_merge_sel S1)
qed

theorem create_commits_second_run_witness:
  "create_commits ''T'' [ex1, ex2, ex4, ex3] R0 = (Inr (), R0_run)
   \<and> distinct (map dst_path [ex1, ex2, ex4, ex3])
   \<and> active_branch R0 \<notin> git_ref ` set [ex1, ex2, ex4, ex3]
   \<and> empty_commit_ok R0 \<and> active_branch R0 \<noteq> EMPTY_COMMIT_SHA
   \<and> length (commits R0_run) = 4
   \<and> validate_and_remove_updated_entries [ex1, ex2, ex4, ex3] R0_run = (Inr [], R0_run)
   \<and> (\<exists>repo2. create_commits ''T'' [ex1, ex2, ex4, ex3] R0_run = (Inr (), repo2)
          \<and> commits repo2 = commits R0_run \<and> refs repo2 = refs R0_run)"
proof -
  have dist: "distinct (map dst_path [ex1, ex2, ex4, ex3])"
    by (simp add: ex1_def ex2_def ex3_def ex4_def)
  have nb: "active_branch R0 \<notin> git_ref ` set [ex1, ex2, ex4, ex3]"
    by (simp add: R0_refs ex1_def ex2_def ex3_def ex4_def)
  then have fixed: "\<forall>e\<in>set [ex1, ex2, ex4, ex3]. git_ref e \<noteq> active_branch R0"
    by auto
  have br: "active_branch R0 \<noteq> EMPTY_COMMIT_SHA"
    by (simp add: R0_refs EMPTY_COMMIT_SHA_def)
  from create_commits_second_run [OF R0_first_run(1) dist fixed R0_empty_commit_ok br]
  have "validate_and_remove_updated_entries [ex1, ex2, ex4, ex3] R0_run = (Inr [], R0_run)"
    and "\<exists>repo2. create_commits ''T'' [ex1, ex2, ex4, ex3] R0_run = (Inr (), repo2)
          \<and> commits repo2 = commits R0_run \<and> refs repo2 = refs R0_run"
    by blast+
  with R0_first_run dist nb R0_empty_commit_ok br show ?thesis by blast
qed

lemma ex_partition_dup:
  "partition_entries_by_ref [ex1, ex_dup] = [[ex1, ex_dup]]"
  "partition_entries_by_ref [ex1] = [[ex1]]"
  by (simp_all add: partition_entries_by_ref_def partition_step_def ex1_def ex_dup_def)

text \<open>
  Claim C5 as stated fails on a manifest in which two entries name the same destination
  with different upstream content. The first run completes and leaves the content of the
  later entry at the destination, which differs from the source of the earlier entry;
  the filter of the second run returns that entry, and the second run writes two more
  commits.
\<close>

theorem create_commits_not_idempotent:
  "create_commits ''T'' [ex1, ex_dup] R0 = (Inr (), R0_dup)
   \<and> length (commits R0_dup) = 2
   \<and> tip_tree R0_dup (dst_path ex1) = Some ''C1''
   \<and> source_blob R0_dup ex1 = Some ''A1''
   \<and> fst (validate_and_remove_updated_entries [ex1, ex_dup] R0_dup) = Inr [ex1]
   \<and> fst (create_commits ''T'' [ex1, ex_dup] R0_dup) = Inr ()
   \<and> length (commits (snd (create_commits ''T'' [ex1, ex_dup] R0_dup))) = 4"
proof -
  let ?M = "[ex1, ex_dup]"
  let ?n = "''aosp/expected_upstream''"
  define R4 where "R4 = (announced ?n R0)\<lparr>stdout := stdout (announced ?n R0) @ [WillBeUpdated]
                 @ map (\<lambda>e. DstPathLine (dst_path e)) [ex1, ex_dup]\<rparr>"
  define M1 where
    "M1 = merged_commit ''T'' [ex1, ex_dup] H0 (import_commit ''T'' [ex1, ex_dup] U1 (c_tree E0))"
  define S1 where "S1 = state_after_merge ''T'' [ex1, ex_dup] U1 E0 H0 R4"
  define R5 where "R5 = (announced ?n S1)\<lparr>stdout := stdout (announced ?n S1) @ [WillBeUpdated]
                 @ map (\<lambda>e. DstPathLine (dst_path e)) [ex1]\<rparr>"
  define S2 where "S2 = state_after_merge ''T'' [ex1] U1 E0 M1 R5"
  have ne: "EMPTY_COMMIT_SHA \<noteq> ''main''" by (simp add: EMPTY_COMMIT_SHA_def)
  have R4: "refs R4 = refs R0" "active_branch R4 = ''main''" "commits R4 = []"
    "tracking_branch R4 = Some ?n"
    by (simp_all add: R4_def announced_sel R0_refs R0_sel)
  have tip: "refs R0 (active_branch R0) = Some H0" by (simp add: R0_refs)
  have sb: "source_blob R0 ex_dup = Some ''C1''"
    by (simp add: source_blob_def R0_refs ex_dup_def U1_def)
  have srcs: "\<forall>e\<in>set ?M. source_blob R0 e \<noteq> None" by (simp add: R0_source_blob sb)
  have nu: "needs_update R0 (c_tree H0) ex_dup"
    by (simp add: needs_update_def sb) (simp add: H0_def ex_dup_def)
  have flt: "filter (needs_update R0 (c_tree H0)) ?M = [ex1, ex_dup]"
    by (simp add: R0_needs_update nu)
  have cc: "create_commits ''T'' ?M R0 = merge_all ''T'' [[ex1, ex_dup]] R4"
    using create_commits_ok [OF R0_sel(1) tip srcs, of "''T''"]
    unfolding flt ex_partition_dup R4_def by simp
  have m1: "merge_files_and_create_commit ''T'' [ex1, ex_dup] R4 = (Inr (), S1)"
    unfolding S1_def
    by (rule merge_ok) (simp_all add: R4 R0_refs ex1_def ex_dup_def U1_def)
  from cc merge_all_single [OF m1] have run1: "create_commits ''T'' ?M R0 = (Inr (), S1)"
    by simp
  then have eq: "R0_dup = S1" by (simp add: R0_dup_def)
  have S1: "refs S1 = (refs R0)(''main'' \<mapsto> M1)" "active_branch S1 = ''main''"
    "length (commits S1) = 2" "tracking_branch S1 = Some ?n"
    by (simp_all add: S1_def M1_def state_after_merge_sel R4)
  have M1x: "c_tree M1 ''x'' = Some ''C1''"
    by (simp add: M1_def commit_sel imported_tree_def ex1_def ex_dup_def U1_def)
  have tip1: "refs S1 (active_branch S1) = Some M1" by (simp add: S1)
  have tt: "tip_tree S1 (dst_path ex1) = Some ''C1''"
    by (simp add: tip_tree_def tip1 M1x ex1_def)
  have sb1: "source_blob S1 ex1 = Some ''A1''" "source_blob S1 ex_dup = Some ''C1''"
    by (simp_all add: source_blob_def S1 R0_refs ex1_def ex_dup_def U1_def)
  then have srcs1: "\<forall>e\<in>set ?M. source_blob S1 e \<noteq> None" by simp
  have flt1: "filter (needs_update S1 (c_tree M1)) ?M = [ex1]"
    by (simp add: needs_update_def sb1) (simp add: M1x ex1_def ex_dup_def)
  have v: "validate_and_remove_updated_entries ?M S1 = (Inr [ex1], S1)"
    using validate_ok [OF tip1 srcs1] by (simp only: flt1)
  have R5: "refs R5 = refs S1" "active_branch R5 = ''main''" "commits R5 = commits S1"
    by (simp_all add: R5_def announced_sel S1)
  have cc2: "create_commits ''T'' ?M S1 = merge_all ''T'' [[ex1]] R5"
    using create_commits_ok [OF S1(4) tip1 srcs1, of "''T''"]
    unfolding flt1 ex_partition_dup R5_def by simp
  have m2: "merge_files_and_create_commit ''T'' [ex1] R5 = (Inr (), S2)"
    unfolding S2_def
    by (rule merge_ok) (simp_all add: R5 S1 R0_refs ne ex1_def U1_def)
  from cc2 merge_all_single [OF m2] have run2: "create_commits ''T'' ?M S1 = (Inr (), S2)"
    by simp
  have len2: "length (commits S2) = 4"
    by (simp add: S2_def state_after_merge_sel R5 S1)
  from run1 S1(3) tt sb1(1) v run2 len2 show ?thesis by (simp add: eq)
qed

end
